theory Spec2Isabelle
  imports Main "HOL-Library.Word"
begin

section \<open>EBridge: an exclusive one-to-one TCP bridge\<close>

text \<open>
  The repository holds two implementations of the bridge: \<^verbatim>\<open>EBridge/ebridge.cpp\<close>, three
  threads (\<^verbatim>\<open>mainListenerThread\<close>, \<^verbatim>\<open>clientListenerThread\<close>, \<^verbatim>\<open>bridgeLoop\<close>) that share the
  atomics \<^verbatim>\<open>g_mainSock\<close>, \<^verbatim>\<open>g_clientSock\<close> and \<^verbatim>\<open>g_mainConnected\<close>, and \<^verbatim>\<open>EBridge/ebridge.c\<close>,
  one loop in \<^verbatim>\<open>main\<close> over \<^verbatim>\<open>fd_main\<close> and \<^verbatim>\<open>fd_client\<close>. Both are embedded here. What the
  operating system answers to a call (the descriptor returned by \<^verbatim>\<open>accept\<close>, the readiness
  reported by \<^verbatim>\<open>select\<close>, what \<^verbatim>\<open>recv\<close> finds, how much \<^verbatim>\<open>send\<close> takes) is an input of the
  model. The model covers the run of the process while \<^verbatim>\<open>g_running\<close> (\<^verbatim>\<open>prog_running\<close>) holds;
  the sleeps at the end of a pass, which change no state, are left out.
\<close>

subsection \<open>The operating system as the bridge sees it\<close>

type_synonym byte = "8 word"

text \<open>
  The values of \<^verbatim>\<open>errno\<close> that matter here; \<open>EOTHER\<close> stands for every other error. \<open>EPIPE\<close>
  is what a write to a connection gets whose peer has reset it; with it the system raises
  \<^verbatim>\<open>SIGPIPE\<close>.
\<close>

datatype errno = ENONE | EAGAIN | EWOULDBLOCK | EPIPE | EOTHER

text \<open>What a read finds on a descriptor: an error, the end of the stream, or pending bytes.\<close>

datatype rx = RxError errno | RxEof | RxData "byte list"

text \<open>What a write meets: an error, or room for so many bytes.\<close>

datatype tx = TxError errno | TxAccepts nat

text \<open>
  \<^verbatim>\<open>recv(fd, buffer, len, 0)\<close>: the count returned and the bytes placed in the buffer. At most
  \<^verbatim>\<open>len\<close> of the pending bytes are taken; with nothing pending a non-blocking descriptor
  answers \<open>-1\<close>.
\<close>

definition recv :: "rx \<Rightarrow> nat \<Rightarrow> int \<times> byte list" where
  "recv r len =
     (case r of
        RxError e \<Rightarrow> (- 1, [])
      | RxEof \<Rightarrow> (0, [])
      | RxData bs \<Rightarrow> if take len bs = [] then (- 1, []) else (int (length (take len bs)), take len bs))"

text \<open>What one pass of \<^verbatim>\<open>bridgeLoop\<close> gets from the system.\<close>

record net =
  select_ret :: int
  readable :: "int \<Rightarrow> bool"
  pending :: "int \<Rightarrow> rx"
  room :: "int \<Rightarrow> tx"

text \<open>What one pass of a listener gets: \<^verbatim>\<open>select\<close> timed out, or \<^verbatim>\<open>accept\<close> returned a
  descriptor (negative on failure) and the peer's address.\<close>

datatype listen_in = Timeout | Accepted int string

subsection \<open>ebridge.cpp: the shared state\<close>

text \<open>
  The globals of \<^verbatim>\<open>ebridge.cpp\<close>, and beside them what the claims observe of the outside: the
  connection descriptors that are open (\<open>socks\<close>), the bytes \<^verbatim>\<open>recv\<close> has taken off each
  descriptor (\<open>taken\<close>), the bytes the system took for each descriptor from \<^verbatim>\<open>send\<close>
  (\<open>wire\<close>), the lines passed to \<^verbatim>\<open>log\<close> (\<open>logged\<close>), and whether \<^verbatim>\<open>SIGPIPE\<close> has ended the
  process (\<open>killed\<close>).
\<close>

record bridge =
  g_mainSock :: int
  g_clientSock :: int
  g_mainConnected :: bool
  g_mainIP :: string
  g_clientIP :: string
  socks :: "int set"
  taken :: "int \<Rightarrow> byte list"
  wire :: "int \<Rightarrow> byte list"
  logged :: "string list"
  killed :: bool

definition initial :: bridge where
  "initial = \<lparr>g_mainSock = - 1, g_clientSock = - 1, g_mainConnected = False,
     g_mainIP = [], g_clientIP = [], socks = {}, taken = (\<lambda>fd. []), wire = (\<lambda>fd. []),
     logged = [], killed = False\<rparr>"

definition log :: "string \<Rightarrow> bridge \<Rightarrow> bridge" where
  "log msg s = s\<lparr>logged := logged s @ [msg]\<rparr>"

definition close :: "int \<Rightarrow> bridge \<Rightarrow> bridge" where
  "close fd s = s\<lparr>socks := socks s - {fd}\<rparr>"

text \<open>A successful \<^verbatim>\<open>accept\<close> opens the descriptor it returns.\<close>

definition accepted :: "int \<Rightarrow> bridge \<Rightarrow> bridge" where
  "accepted fd s = s\<lparr>socks := insert fd (socks s)\<rparr>"

text \<open>A \<^verbatim>\<open>recv\<close> that returned \<open>n > 0\<close> has taken the bytes in the buffer off the descriptor.\<close>

definition received :: "int \<Rightarrow> byte list \<Rightarrow> bridge \<Rightarrow> bridge" where
  "received fd bs s = s\<lparr>taken := (taken s)(fd := taken s fd @ bs)\<rparr>"

text \<open>
  \<^verbatim>\<open>send(fd, buffer, n, 0)\<close> on a non-blocking socket: the system takes as many bytes as it
  has room for, and the code drops the value \<^verbatim>\<open>send\<close> returns. The flags are 0 and the
  program neither handles nor ignores \<^verbatim>\<open>SIGPIPE\<close> (\<^verbatim>\<open>main\<close> installs handlers for \<^verbatim>\<open>SIGINT\<close> and
  \<^verbatim>\<open>SIGTERM\<close> only), so a \<^verbatim>\<open>send\<close> that fails with \<open>EPIPE\<close> ends the process. Any other
  failure changes nothing, and so does a \<^verbatim>\<open>send\<close> on a descriptor that is not open.
\<close>

definition send :: "net \<Rightarrow> int \<Rightarrow> byte list \<Rightarrow> bridge \<Rightarrow> bridge" where
  "send e fd bs s =
     (if fd \<in> socks s
      then (case room e fd of
              TxError err \<Rightarrow> if err = EPIPE then s\<lparr>killed := True\<rparr> else s
            | TxAccepts k \<Rightarrow> s\<lparr>wire := (wire s)(fd := wire s fd @ take k bs)\<rparr>)
      else s)"

subsection \<open>ebridge.cpp: the two listeners\<close>

text \<open>One pass of the loop of \<^verbatim>\<open>mainListenerThread\<close> (lines 228--257).\<close>

definition mainListenerThread :: "listen_in \<Rightarrow> bridge \<Rightarrow> bridge" where
  "mainListenerThread i s =
     (case i of
        Timeout \<Rightarrow> s
      | Accepted sock ip \<Rightarrow>
          if sock \<ge> 0 then
            let s = accepted sock s in
            if g_mainSock s \<noteq> - 1
            then close sock (log ''Main rejected: already connected'' s)
            else log (''Main connected from '' @ ip)
                   (s\<lparr>g_mainSock := sock, g_mainConnected := True, g_mainIP := ip\<rparr>)
          else s)"

text \<open>One pass of the loop of \<^verbatim>\<open>clientListenerThread\<close> (lines 290--323).\<close>

definition clientListenerThread :: "listen_in \<Rightarrow> bridge \<Rightarrow> bridge" where
  "clientListenerThread i s =
     (case i of
        Timeout \<Rightarrow> s
      | Accepted sock ip \<Rightarrow>
          if sock \<ge> 0 then
            let s = accepted sock s in
            if \<not> g_mainConnected s
            then close sock (log ''Client rejected: main not connected'' s)
            else if g_clientSock s \<noteq> - 1
            then close sock (log ''Client rejected: already connected'' s)
            else log (''Client connected from '' @ ip)
                   (s\<lparr>g_clientSock := sock, g_clientIP := ip\<rparr>)
          else s)"

subsection \<open>ebridge.cpp: the relay\<close>

text \<open>The locals \<^verbatim>\<open>bridgeLoop\<close> sets at the head of a pass (lines 337--341).\<close>

record locals =
  mainSockLocal :: int
  clientSockLocal :: int
  haveMain :: bool
  haveClient :: bool

definition snapshot :: "bridge \<Rightarrow> locals" where
  "snapshot s = \<lparr>mainSockLocal = g_mainSock s, clientSockLocal = g_clientSock s,
     haveMain = (g_mainSock s \<noteq> - 1), haveClient = (g_clientSock s \<noteq> - 1)\<rparr>"

text \<open>Lines 373--383: \<^verbatim>\<open>recv\<close> on the main socket returned \<open>n \<le> 0\<close>.\<close>

definition main_disconnected :: "locals \<Rightarrow> bridge \<Rightarrow> bridge" where
  "main_disconnected l s =
     (let s = log ''Main disconnected'' s;
          s = (if mainSockLocal l \<noteq> - 1 then close (mainSockLocal l) s else s);
          s = s\<lparr>g_mainSock := - 1\<rparr>;
          s = s\<lparr>g_mainConnected := False\<rparr>
      in if g_clientSock s \<noteq> - 1
         then (close (g_clientSock s) (log ''Closing client because main disconnected'' s))
                \<lparr>g_clientSock := - 1\<rparr>
         else s)"

text \<open>Lines 393--403: \<^verbatim>\<open>recv\<close> on the client socket returned \<open>n \<le> 0\<close>.\<close>

definition client_disconnected :: "locals \<Rightarrow> bridge \<Rightarrow> bridge" where
  "client_disconnected l s =
     (let s = log ''Client disconnected'' s;
          s = (if g_clientSock s \<noteq> - 1 then close (clientSockLocal l) s else s);
          s = s\<lparr>g_clientSock := - 1\<rparr>
      in if g_mainSock s \<noteq> - 1
         then (close (g_mainSock s) (log ''Closing main because client disconnected'' s))
                \<lparr>g_mainSock := - 1, g_mainConnected := False\<rparr>
         else s)"

text \<open>Lines 370--387; the flag says whether the pass ended there (\<^verbatim>\<open>continue\<close>).\<close>

definition main_to_client :: "net \<Rightarrow> locals \<Rightarrow> bridge \<Rightarrow> bool \<times> bridge" where
  "main_to_client e l s =
     (if haveMain l \<and> readable e (mainSockLocal l) then
        (case recv (pending e (mainSockLocal l)) 4096 of
           (n, buffer) \<Rightarrow>
             if n \<le> 0 then (True, main_disconnected l s)
             else
               let s = received (mainSockLocal l) buffer s
               in (False, if haveClient l then send e (g_clientSock s) (take (nat n) buffer) s else s))
      else (False, s))"

text \<open>Lines 390--407.\<close>

definition client_to_main :: "net \<Rightarrow> locals \<Rightarrow> bridge \<Rightarrow> bridge" where
  "client_to_main e l s =
     (if haveClient l \<and> readable e (clientSockLocal l) then
        (case recv (pending e (clientSockLocal l)) 4096 of
           (n, buffer) \<Rightarrow>
             if n \<le> 0 then client_disconnected l s
             else
               let s = received (clientSockLocal l) buffer s
               in if haveMain l then send e (g_mainSock s) (take (nat n) buffer) s else s)
      else s)"

text \<open>
  Lines 344--407: the rest of a pass, once the locals are set. \<^verbatim>\<open>select\<close> waits up to a
  second, so the listeners may have run since the locals were read. When the \<^verbatim>\<open>send\<close> of
  line 386 has ended the process, lines 390--407 are not run.
\<close>

definition relay :: "net \<Rightarrow> locals \<Rightarrow> bridge \<Rightarrow> bridge" where
  "relay e l s =
     (if \<not> haveMain l \<and> \<not> haveClient l then s
      else if select_ret e \<le> 0 then s
      else (case main_to_client e l s of
              (True, s') \<Rightarrow> s'
            | (False, s') \<Rightarrow> if killed s' then s' else client_to_main e l s'))"

text \<open>One pass of the loop of \<^verbatim>\<open>bridgeLoop\<close> (lines 336--408), nothing running in between.\<close>

definition bridgeLoop :: "net \<Rightarrow> bridge \<Rightarrow> bridge" where
  "bridgeLoop e s = relay e (snapshot s) s"


subsection \<open>ebridge.cpp: the threads, one access to a shared atomic at a time\<close>

text \<open>
  The three threads hold no lock. The globals are \<^verbatim>\<open>std::atomic\<close>, read and written with
  the default (sequentially consistent) order, so a run of the process is an interleaving
  of the threads in which each load or store of an atomic is one step; what a thread does
  between two such accesses is joined to the step before or after. A thread's position in
  its loop, with the values of its locals, is its program counter.
\<close>

datatype mpc =
    M_Accept                  \<comment> \<open>lines 235--239\<close>
  | M_Check int string        \<comment> \<open>line 241\<close>
  | M_StoreSock int string    \<comment> \<open>line 247\<close>
  | M_StoreFlag int string    \<comment> \<open>lines 248--253\<close>

fun mainListener_step :: "listen_in \<Rightarrow> mpc \<times> bridge \<Rightarrow> mpc \<times> bridge" where
  "mainListener_step i (M_Accept, s) =
     (case i of
        Timeout \<Rightarrow> (M_Accept, s)
      | Accepted sock ip \<Rightarrow>
          if sock \<ge> 0 then (M_Check sock ip, accepted sock s) else (M_Accept, s))"
| "mainListener_step i (M_Check sock ip, s) =
     (if g_mainSock s \<noteq> - 1
      then (M_Accept, close sock (log ''Main rejected: already connected'' s))
      else (M_StoreSock sock ip, s))"
| "mainListener_step i (M_StoreSock sock ip, s) = (M_StoreFlag sock ip, s\<lparr>g_mainSock := sock\<rparr>)"
| "mainListener_step i (M_StoreFlag sock ip, s) =
     (M_Accept, log (''Main connected from '' @ ip) (s\<lparr>g_mainConnected := True, g_mainIP := ip\<rparr>))"

datatype cpc =
    C_Accept                  \<comment> \<open>lines 297--301\<close>
  | C_CheckMain int string    \<comment> \<open>line 303\<close>
  | C_CheckClient int string  \<comment> \<open>line 308\<close>
  | C_StoreSock int string    \<comment> \<open>lines 314--319\<close>

fun clientListener_step :: "listen_in \<Rightarrow> cpc \<times> bridge \<Rightarrow> cpc \<times> bridge" where
  "clientListener_step i (C_Accept, s) =
     (case i of
        Timeout \<Rightarrow> (C_Accept, s)
      | Accepted sock ip \<Rightarrow>
          if sock \<ge> 0 then (C_CheckMain sock ip, accepted sock s) else (C_Accept, s))"
| "clientListener_step i (C_CheckMain sock ip, s) =
     (if \<not> g_mainConnected s
      then (C_Accept, close sock (log ''Client rejected: main not connected'' s))
      else (C_CheckClient sock ip, s))"
| "clientListener_step i (C_CheckClient sock ip, s) =
     (if g_clientSock s \<noteq> - 1
      then (C_Accept, close sock (log ''Client rejected: already connected'' s))
      else (C_StoreSock sock ip, s))"
| "clientListener_step i (C_StoreSock sock ip, s) =
     (C_Accept, log (''Client connected from '' @ ip) (s\<lparr>g_clientSock := sock, g_clientIP := ip\<rparr>))"

datatype bpc =
    B_LoadMain                          \<comment> \<open>line 337\<close>
  | B_LoadClient int                    \<comment> \<open>line 338\<close>
  | B_HaveMain int int                  \<comment> \<open>line 340\<close>
  | B_HaveClient int int bool           \<comment> \<open>lines 341--347\<close>
  | B_Select locals                     \<comment> \<open>lines 349--367\<close>
  | B_RecvMain locals bool bool         \<comment> \<open>lines 370--375, with \<^verbatim>\<open>FD_ISSET\<close> of both sockets\<close>
  | B_SendClient locals bool "byte list"  \<comment> \<open>line 386\<close>
  | B_MD_StoreMain                      \<comment> \<open>line 376\<close>
  | B_MD_StoreFlag                      \<comment> \<open>line 377\<close>
  | B_MD_TestClient                     \<comment> \<open>line 378\<close>
  | B_MD_CloseClient                    \<comment> \<open>lines 379--380\<close>
  | B_MD_StoreClient                    \<comment> \<open>line 381\<close>
  | B_RecvClient locals bool            \<comment> \<open>lines 390--393\<close>
  | B_SendMain "byte list"              \<comment> \<open>line 406\<close>
  | B_CD_TestClient locals              \<comment> \<open>lines 394--395\<close>
  | B_CD_StoreClient                    \<comment> \<open>line 396\<close>
  | B_CD_TestMain                       \<comment> \<open>line 397\<close>
  | B_CD_CloseMain                      \<comment> \<open>lines 398--399\<close>
  | B_CD_StoreMain                      \<comment> \<open>line 400\<close>
  | B_CD_StoreFlag                      \<comment> \<open>line 401\<close>

text \<open>
  The locals read at lines 337--341 can disagree when a listener or a teardown runs between
  the loads: \<^verbatim>\<open>haveMain\<close> true with \<^verbatim>\<open>mainSockLocal\<close> still \<open>-1\<close>, and likewise for the client.
  \<^verbatim>\<open>FD_SET\<close> and \<^verbatim>\<open>FD_ISSET\<close> are then given \<open>-1\<close>, which the C library does not define. The
  program as built goes on: what \<^verbatim>\<open>FD_ISSET\<close> gives is, as for any descriptor, part of what
  the system answers (\<open>readable\<close>), and for \<open>-1\<close> that answer is false, the bit that \<^verbatim>\<open>FD_SET\<close>
  sets being none that \<^verbatim>\<open>select\<close> reports back. The next pass reads the locals anew.
\<close>

fun bridgeLoop_step :: "net \<Rightarrow> bpc \<times> bridge \<Rightarrow> bpc \<times> bridge" where
  "bridgeLoop_step e (B_LoadMain, s) = (B_LoadClient (g_mainSock s), s)"
| "bridgeLoop_step e (B_LoadClient m, s) = (B_HaveMain m (g_clientSock s), s)"
| "bridgeLoop_step e (B_HaveMain m c, s) = (B_HaveClient m c (g_mainSock s \<noteq> - 1), s)"
| "bridgeLoop_step e (B_HaveClient m c hm, s) =
     (let hc = (g_clientSock s \<noteq> - 1) in
      if \<not> hm \<and> \<not> hc then (B_LoadMain, s)
      else (B_Select \<lparr>mainSockLocal = m, clientSockLocal = c, haveMain = hm, haveClient = hc\<rparr>, s))"
| "bridgeLoop_step e (B_Select l, s) =
     (if select_ret e \<le> 0 then (B_LoadMain, s)
      else (B_RecvMain l (readable e (mainSockLocal l)) (readable e (clientSockLocal l)), s))"
| "bridgeLoop_step e (B_RecvMain l rm rc, s) =
     (if haveMain l \<and> rm then
        (case recv (pending e (mainSockLocal l)) 4096 of
           (n, buffer) \<Rightarrow>
             if n \<le> 0
             then (B_MD_StoreMain,
                   (let s = log ''Main disconnected'' s
                    in if mainSockLocal l \<noteq> - 1 then close (mainSockLocal l) s else s))
             else if haveClient l
             then (B_SendClient l rc (take (nat n) buffer), received (mainSockLocal l) buffer s)
             else (B_RecvClient l rc, received (mainSockLocal l) buffer s))
      else (B_RecvClient l rc, s))"
| "bridgeLoop_step e (B_SendClient l rc buffer, s) =
     (B_RecvClient l rc, send e (g_clientSock s) buffer s)"
| "bridgeLoop_step e (B_MD_StoreMain, s) = (B_MD_StoreFlag, s\<lparr>g_mainSock := - 1\<rparr>)"
| "bridgeLoop_step e (B_MD_StoreFlag, s) = (B_MD_TestClient, s\<lparr>g_mainConnected := False\<rparr>)"
| "bridgeLoop_step e (B_MD_TestClient, s) =
     (if g_clientSock s \<noteq> - 1 then (B_MD_CloseClient, s) else (B_LoadMain, s))"
| "bridgeLoop_step e (B_MD_CloseClient, s) =
     (B_MD_StoreClient, close (g_clientSock s) (log ''Closing client because main disconnected'' s))"
| "bridgeLoop_step e (B_MD_StoreClient, s) = (B_LoadMain, s\<lparr>g_clientSock := - 1\<rparr>)"
| "bridgeLoop_step e (B_RecvClient l rc, s) =
     (if haveClient l \<and> rc then
        (case recv (pending e (clientSockLocal l)) 4096 of
           (n, buffer) \<Rightarrow>
             if n \<le> 0 then (B_CD_TestClient l, log ''Client disconnected'' s)
             else if haveMain l
             then (B_SendMain (take (nat n) buffer), received (clientSockLocal l) buffer s)
             else (B_LoadMain, received (clientSockLocal l) buffer s))
      else (B_LoadMain, s))"
| "bridgeLoop_step e (B_SendMain buffer, s) = (B_LoadMain, send e (g_mainSock s) buffer s)"
| "bridgeLoop_step e (B_CD_TestClient l, s) =
     (B_CD_StoreClient, if g_clientSock s \<noteq> - 1 then close (clientSockLocal l) s else s)"
| "bridgeLoop_step e (B_CD_StoreClient, s) = (B_CD_TestMain, s\<lparr>g_clientSock := - 1\<rparr>)"
| "bridgeLoop_step e (B_CD_TestMain, s) =
     (if g_mainSock s \<noteq> - 1 then (B_CD_CloseMain, s) else (B_LoadMain, s))"
| "bridgeLoop_step e (B_CD_CloseMain, s) =
     (B_CD_StoreMain, close (g_mainSock s) (log ''Closing main because client disconnected'' s))"
| "bridgeLoop_step e (B_CD_StoreMain, s) = (B_CD_StoreFlag, s\<lparr>g_mainSock := - 1\<rparr>)"
| "bridgeLoop_step e (B_CD_StoreFlag, s) = (B_LoadMain, s\<lparr>g_mainConnected := False\<rparr>)"

text \<open>The process: the shared state and the three program counters.\<close>

record process =
  mem :: bridge
  main_pc :: mpc
  client_pc :: cpc
  bridge_pc :: bpc

definition started :: process where
  "started = \<lparr>mem = initial, main_pc = M_Accept, client_pc = C_Accept, bridge_pc = B_LoadMain\<rparr>"

text \<open>A thread steps while the process lives: once \<^verbatim>\<open>SIGPIPE\<close> has ended it, nothing moves.\<close>

definition alive :: "('pc \<times> bridge \<Rightarrow> 'pc \<times> bridge) \<Rightarrow> 'pc \<times> bridge \<Rightarrow> 'pc \<times> bridge" where
  "alive f c = (if killed (snd c) then c else f c)"

text \<open>A step of the process is a step of one of its threads, with what the system answers.\<close>

datatype action = MainListener listen_in | ClientListener listen_in | BridgeLoop net

fun step :: "action \<Rightarrow> process \<Rightarrow> process" where
  "step (MainListener i) p =
     (case alive (mainListener_step i) (main_pc p, mem p) of
        (pc, s) \<Rightarrow> p\<lparr>mem := s, main_pc := pc\<rparr>)"
| "step (ClientListener i) p =
     (case alive (clientListener_step i) (client_pc p, mem p) of
        (pc, s) \<Rightarrow> p\<lparr>mem := s, client_pc := pc\<rparr>)"
| "step (BridgeLoop e) p =
     (case alive (bridgeLoop_step e) (bridge_pc p, mem p) of
        (pc, s) \<Rightarrow> p\<lparr>mem := s, bridge_pc := pc\<rparr>)"

fun run :: "action list \<Rightarrow> process \<Rightarrow> process" where
  "run [] p = p"
| "run (a # as) p = run as (step a p)"

text \<open>No thread is inside a pass of its loop.\<close>

definition quiescent :: "process \<Rightarrow> bool" where
  "quiescent p \<longleftrightarrow> main_pc p = M_Accept \<and> client_pc p = C_Accept \<and> bridge_pc p = B_LoadMain"

text \<open>The states the process can be in: any schedule, any answers of the system.\<close>

inductive reachable :: "process \<Rightarrow> bool" where
  reachable_start: "reachable started"
| reachable_step: "reachable p \<Longrightarrow> reachable (step a p)"

subsection \<open>A thread running alone\<close>

text \<open>
  \<open>pass_of f h c c'\<close>: stepping with \<open>f\<close> from \<open>c\<close>, the first configuration after \<open>c\<close> at
  which \<open>h\<close> holds is \<open>c'\<close>. With \<open>f\<close> the step of a thread and \<open>h\<close> the head of its loop,
  this is one pass of the thread with no other thread running in between. A pass of
  \<^verbatim>\<open>bridgeLoop\<close> is over when the thread is back at the head of its loop, or when a \<^verbatim>\<open>send\<close> has
  ended the process.
\<close>

inductive pass_of :: "('c \<Rightarrow> 'c) \<Rightarrow> ('c \<Rightarrow> bool) \<Rightarrow> 'c \<Rightarrow> 'c \<Rightarrow> bool" for f h where
  arrive: "h (f c) \<Longrightarrow> pass_of f h c (f c)"
| onward: "\<not> h (f c) \<Longrightarrow> pass_of f h (f c) c' \<Longrightarrow> pass_of f h c c'"

definition at_M_Accept :: "mpc \<times> bridge \<Rightarrow> bool" where
  "at_M_Accept c \<longleftrightarrow> fst c = M_Accept"

definition at_C_Accept :: "cpc \<times> bridge \<Rightarrow> bool" where
  "at_C_Accept c \<longleftrightarrow> fst c = C_Accept"

definition at_B_end :: "bpc \<times> bridge \<Rightarrow> bool" where
  "at_B_end c \<longleftrightarrow> fst c = B_LoadMain \<or> killed (snd c)"


subsection \<open>ebridge.cpp: schedules that leave the passes uninterrupted\<close>

text \<open>
  The head of a pass of \<^verbatim>\<open>bridgeLoop\<close> ends at \<^verbatim>\<open>select\<close>, or back at the head of the loop
  when neither socket is set.
\<close>

definition at_B_Select :: "bpc \<times> bridge \<Rightarrow> bool" where
  "at_B_Select c \<longleftrightarrow> (case fst c of B_LoadMain \<Rightarrow> True | B_Select l \<Rightarrow> True | _ \<Rightarrow> False)"

definition locals_of :: "bpc \<Rightarrow> locals option" where
  "locals_of pc = (case pc of B_Select l \<Rightarrow> Some l | _ \<Rightarrow> None)"

text \<open>
  The states of the process under the schedules in which a listener, once it has left the
  head of its loop, runs alone until it is back there, and \<^verbatim>\<open>bridgeLoop\<close> runs alone from
  the head of its loop to \<^verbatim>\<open>select\<close> and from \<^verbatim>\<open>select\<close> to the end of its pass. While
  \<^verbatim>\<open>bridgeLoop\<close> waits in \<^verbatim>\<open>select\<close> the listeners may run. Nothing in the program makes the
  system schedule it so: these are some of its runs, not all of them.
\<close>

inductive calm :: "process \<Rightarrow> bool" where
  calm_start: "calm started"
| calm_main: "calm p \<Longrightarrow> \<not> killed (mem p) \<Longrightarrow>
     pass_of (alive (mainListener_step i)) at_M_Accept (main_pc p, mem p) (pc, s) \<Longrightarrow>
     calm (p\<lparr>mem := s, main_pc := pc\<rparr>)"
| calm_client: "calm p \<Longrightarrow> \<not> killed (mem p) \<Longrightarrow>
     pass_of (alive (clientListener_step i)) at_C_Accept (client_pc p, mem p) (pc, s) \<Longrightarrow>
     calm (p\<lparr>mem := s, client_pc := pc\<rparr>)"
| calm_head: "calm p \<Longrightarrow> \<not> killed (mem p) \<Longrightarrow> bridge_pc p = B_LoadMain \<Longrightarrow>
     pass_of (alive (bridgeLoop_step e)) at_B_Select (bridge_pc p, mem p) (pc, s) \<Longrightarrow>
     calm (p\<lparr>mem := s, bridge_pc := pc\<rparr>)"
| calm_relay: "calm p \<Longrightarrow> \<not> killed (mem p) \<Longrightarrow> bridge_pc p = B_Select l \<Longrightarrow>
     pass_of (alive (bridgeLoop_step e)) at_B_end (bridge_pc p, mem p) (pc, s) \<Longrightarrow>
     calm (p\<lparr>mem := s, bridge_pc := pc\<rparr>)"

subsection \<open>ebridge.cpp: the passes as steps\<close>

text \<open>
  The same states in terms of whole passes: a pass of a listener, the head of a pass of
  \<^verbatim>\<open>bridgeLoop\<close> (the four loads of lines 337--341) and the rest of that pass (from
  \<^verbatim>\<open>select\<close> on) are each one step. The second component holds the locals of
  \<^verbatim>\<open>bridgeLoop\<close> between the two parts of its pass.
\<close>

inductive reach :: "bridge \<Rightarrow> locals option \<Rightarrow> bool" where
  reach_start: "reach initial None"
| reach_main: "reach s lo \<Longrightarrow> \<not> killed s \<Longrightarrow> reach (mainListenerThread i s) lo"
| reach_client: "reach s lo \<Longrightarrow> \<not> killed s \<Longrightarrow> reach (clientListenerThread i s) lo"
| reach_snapshot: "reach s None \<Longrightarrow> \<not> killed s \<Longrightarrow> reach s (Some (snapshot s))"
| reach_relay: "reach s (Some l) \<Longrightarrow> \<not> killed s \<Longrightarrow> reach (relay e l s) None"

text \<open>The client socket is set only with the main socket, and the flag follows the main socket.\<close>

definition session_ok :: "bridge \<Rightarrow> bool" where
  "session_ok s \<longleftrightarrow>
     (g_clientSock s = - 1 \<or> g_mainSock s \<noteq> - 1) \<and> g_mainConnected s = (g_mainSock s \<noteq> - 1)"

text \<open>The locals of \<^verbatim>\<open>bridgeLoop\<close> still name the sockets they were read from.\<close>

definition locals_ok :: "bridge \<Rightarrow> locals option \<Rightarrow> bool" where
  "locals_ok s lo =
     (case lo of
        None \<Rightarrow> True
      | Some l \<Rightarrow>
          (if haveMain l then mainSockLocal l = g_mainSock s \<and> g_mainSock s \<noteq> - 1
           else mainSockLocal l = - 1) \<and>
          (if haveClient l then clientSockLocal l = g_clientSock s \<and> g_clientSock s \<noteq> - 1
           else clientSockLocal l = - 1))"

text \<open>A listener about to store its socket has seen the role free, and it still is.\<close>

definition store_pending_ok :: "process \<Rightarrow> bool" where
  "store_pending_ok p \<longleftrightarrow>
     (case main_pc p of M_StoreSock sock ip \<Rightarrow> g_mainSock (mem p) = - 1 | _ \<Rightarrow> True) \<and>
     (case client_pc p of C_StoreSock sock ip \<Rightarrow> g_clientSock (mem p) = - 1 | _ \<Rightarrow> True)"

subsection \<open>Concrete runs\<close>

text \<open>
  In a schedule each entry is one step of the thread it names. The answer of the system
  that comes with it is looked at only by a step that calls the system: of the steps of a
  listener's pass, the first takes the connection.

  A probe connects from 10.0.0.5, a debugger from 10.0.1.9, another probe from 10.0.0.6.
\<close>

definition main_arrives :: listen_in where
  "main_arrives = Accepted 5 ''10.0.0.5''"

definition client_arrives :: listen_in where
  "client_arrives = Accepted 7 ''10.0.1.9''"

definition main_again :: listen_in where
  "main_again = Accepted 9 ''10.0.0.6''"

text \<open>The peer of descriptor 5 has closed its end: \<^verbatim>\<open>select\<close> reports 5, \<^verbatim>\<open>recv\<close> returns 0.\<close>

definition main_gone :: net where
  "main_gone = \<lparr>select_ret = 1, readable = (\<lambda>fd. fd = 5), pending = (\<lambda>fd. RxEof),
     room = (\<lambda>fd. TxAccepts 0)\<rparr>"

text \<open>Main connected, client connected, each listener pass uninterrupted.\<close>

definition bridged :: bridge where
  "bridged = clientListenerThread client_arrives (mainListenerThread main_arrives initial)"

text \<open>
  The client listener has passed both of its checks (lines 303 and 308) when \<^verbatim>\<open>bridgeLoop\<close>
  finds the main socket closed and runs lines 373--383; the client listener then goes on to
  line 314.
\<close>

definition late_admission :: "action list" where
  "late_admission =
     [MainListener main_arrives, MainListener main_arrives, MainListener main_arrives,
      MainListener main_arrives,
      ClientListener client_arrives, ClientListener client_arrives, ClientListener client_arrives,
      BridgeLoop main_gone, BridgeLoop main_gone, BridgeLoop main_gone, BridgeLoop main_gone,
      BridgeLoop main_gone, BridgeLoop main_gone, BridgeLoop main_gone, BridgeLoop main_gone,
      BridgeLoop main_gone,
      ClientListener client_arrives]"

text \<open>
  \<^verbatim>\<open>bridgeLoop\<close> has found the main socket closed and stored \<open>-1\<close> (line 376) when the main
  listener accepts the next probe and runs lines 241--253; \<^verbatim>\<open>bridgeLoop\<close> then goes on to
  line 377.
\<close>

definition late_flag_clear :: "action list" where
  "late_flag_clear =
     [MainListener main_arrives, MainListener main_arrives, MainListener main_arrives,
      MainListener main_arrives,
      BridgeLoop main_gone, BridgeLoop main_gone, BridgeLoop main_gone, BridgeLoop main_gone,
      BridgeLoop main_gone, BridgeLoop main_gone, BridgeLoop main_gone,
      MainListener main_again, MainListener main_again, MainListener main_again,
      MainListener main_again,
      BridgeLoop main_gone, BridgeLoop main_gone]"

text \<open>The probe is connected and no debugger is: the main listener has run one pass.\<close>

definition waiting :: bridge where
  "waiting = mainListenerThread main_arrives initial"

text \<open>The probe on descriptor 5 has sent three bytes.\<close>

definition main_speaks :: net where
  "main_speaks = \<lparr>select_ret = 1, readable = (\<lambda>fd. fd = 5), pending = (\<lambda>fd. RxData [1, 2, 3]),
     room = (\<lambda>fd. TxAccepts 3)\<rparr>"

text \<open>
  The probe on descriptor 5 has sent three bytes and the debugger on descriptor 7 has gone,
  its connection reset: \<^verbatim>\<open>select\<close> reports both, a \<^verbatim>\<open>recv\<close> on 7 would return 0, and a write
  to 7 fails with \<open>EPIPE\<close>.
\<close>

definition client_reset :: net where
  "client_reset = \<lparr>select_ret = 2, readable = (\<lambda>fd. fd = 5 \<or> fd = 7),
     pending = (\<lambda>fd. if fd = 5 then RxData [1, 2, 3] else RxEof),
     room = (\<lambda>fd. if fd = 7 then TxError EPIPE else TxAccepts 4096)\<rparr>"

text \<open>The same, and the socket of the debugger has room for one byte only.\<close>

definition client_slow :: net where
  "client_slow = \<lparr>select_ret = 1, readable = (\<lambda>fd. fd = 5), pending = (\<lambda>fd. RxData [1, 2, 3]),
     room = (\<lambda>fd. TxAccepts 1)\<rparr>"

text \<open>The probe has sent one more byte, and there is room again.\<close>

definition main_speaks_on :: net where
  "main_speaks_on = \<lparr>select_ret = 1, readable = (\<lambda>fd. fd = 5), pending = (\<lambda>fd. RxData [4]),
     room = (\<lambda>fd. TxAccepts 3)\<rparr>"

text \<open>
  The main listener has stored its socket (line 247) when \<^verbatim>\<open>bridgeLoop\<close> finds that socket
  closed and runs lines 373--378; the main listener then goes on to line 248.
\<close>

definition stale_flag :: "action list" where
  "stale_flag =
     [MainListener main_arrives, MainListener main_arrives, MainListener main_arrives,
      BridgeLoop main_gone, BridgeLoop main_gone, BridgeLoop main_gone, BridgeLoop main_gone,
      BridgeLoop main_gone, BridgeLoop main_gone, BridgeLoop main_gone, BridgeLoop main_gone,
      BridgeLoop main_gone,
      MainListener main_arrives]"

text \<open>
  Both connected; \<^verbatim>\<open>bridgeLoop\<close> finds the main socket closed, closes it and stores \<open>-1\<close>
  (lines 373--376).
\<close>

definition teardown_begun :: "action list" where
  "teardown_begun =
     [MainListener main_arrives, MainListener main_arrives, MainListener main_arrives,
      MainListener main_arrives,
      ClientListener client_arrives, ClientListener client_arrives, ClientListener client_arrives,
      ClientListener client_arrives,
      BridgeLoop main_gone, BridgeLoop main_gone, BridgeLoop main_gone, BridgeLoop main_gone,
      BridgeLoop main_gone, BridgeLoop main_gone, BridgeLoop main_gone]"

text \<open>
  Then the main listener accepts the next probe (lines 241--253), and \<^verbatim>\<open>bridgeLoop\<close> goes on
  with lines 377--383.
\<close>

definition teardown_torn :: "action list" where
  "teardown_torn =
     teardown_begun @
     [MainListener main_again, MainListener main_again, MainListener main_again,
      MainListener main_again,
      BridgeLoop main_gone, BridgeLoop main_gone, BridgeLoop main_gone, BridgeLoop main_gone]"

text \<open>
  \<^verbatim>\<open>bridgeLoop\<close> has read \<^verbatim>\<open>mainSockLocal\<close> as \<open>-1\<close> (line 337) when the main listener admits
  the probe; it then reads the other three locals, so that \<^verbatim>\<open>haveMain\<close> is true, and comes to
  \<^verbatim>\<open>select\<close>.
\<close>

definition stale_locals :: "action list" where
  "stale_locals =
     [BridgeLoop main_gone,
      MainListener main_arrives, MainListener main_arrives, MainListener main_arrives,
      MainListener main_arrives,
      BridgeLoop main_gone, BridgeLoop main_gone, BridgeLoop main_gone]"

text \<open>
  The probe closes. \<^verbatim>\<open>bridgeLoop\<close> ends that pass, in which \<open>-1\<close> is not reported readable, and
  runs the next.
\<close>

definition stale_pass :: "action list" where
  "stale_pass = stale_locals @ [BridgeLoop main_gone, BridgeLoop main_gone, BridgeLoop main_gone]"

definition stale_then_fresh :: "action list" where
  "stale_then_fresh =
     stale_pass @
     [BridgeLoop main_gone, BridgeLoop main_gone, BridgeLoop main_gone, BridgeLoop main_gone,
      BridgeLoop main_gone, BridgeLoop main_gone, BridgeLoop main_gone, BridgeLoop main_gone,
      BridgeLoop main_gone]"

subsection \<open>Relaying over several passes\<close>

text \<open>
  Passes of \<^verbatim>\<open>bridgeLoop\<close>, one after the other, each with what the system answers, for as
  long as the process lives.
\<close>

fun bridge_passes :: "net list \<Rightarrow> bridge \<Rightarrow> bridge" where
  "bridge_passes [] s = s"
| "bridge_passes (e # es) s = (if killed s then s else bridge_passes es (bridgeLoop e s))"

text \<open>What a pass reads from descriptor \<open>fd\<close> when there are bytes pending on it.\<close>

definition chunk :: "net \<Rightarrow> int \<Rightarrow> byte list" where
  "chunk e fd =
     (if 0 < select_ret e \<and> readable e fd
      then (case pending e fd of RxData bs \<Rightarrow> take 4096 bs | _ \<Rightarrow> [])
      else [])"

text \<open>
  A descriptor reported readable has bytes pending (its peer has neither closed nor
  failed), and the other side has room for what is read.
\<close>

definition flows :: "net \<Rightarrow> int \<Rightarrow> int \<Rightarrow> bool" where
  "flows e src dst \<longleftrightarrow>
     (0 < select_ret e \<and> readable e src \<longrightarrow>
        (case pending e src of
           RxData bs \<Rightarrow>
             bs \<noteq> [] \<and> (case room e dst of TxAccepts k \<Rightarrow> length (take 4096 bs) \<le> k | _ \<Rightarrow> False)
         | _ \<Rightarrow> False))"

subsection \<open>ebridge.c: the state and the system calls\<close>

text \<open>
  The globals of \<^verbatim>\<open>ebridge.c\<close> that the loop of \<^verbatim>\<open>main\<close> works on, \<^verbatim>\<open>errno\<close>, and what is
  observed of the outside: the connection descriptors that are open, the bytes the system
  took for each descriptor, the lines passed to \<^verbatim>\<open>logmsg\<close>, and whether \<^verbatim>\<open>SIGPIPE\<close> has ended
  the process (\<open>terminated\<close>).
\<close>

record ebridge =
  fd_main :: int
  fd_client :: int
  errno :: errno
  open_fds :: "int set"
  sent :: "int \<Rightarrow> byte list"
  printed :: "string list"
  terminated :: bool

definition at_start :: ebridge where
  "at_start = \<lparr>fd_main = - 1, fd_client = - 1, errno = ENONE, open_fds = {},
     sent = (\<lambda>fd. []), printed = [], terminated = False\<rparr>"

definition logmsg :: "string \<Rightarrow> ebridge \<Rightarrow> ebridge" where
  "logmsg msg s = s\<lparr>printed := printed s @ [msg]\<rparr>"

definition close_fd :: "int \<Rightarrow> ebridge \<Rightarrow> ebridge" where
  "close_fd fd s = s\<lparr>open_fds := open_fds s - {fd}\<rparr>"

text \<open>\<^verbatim>\<open>accept4\<close> returned \<open>fd\<close>: a descriptor that is now open, or \<open>-1\<close>.\<close>

definition accept4 :: "int \<Rightarrow> ebridge \<Rightarrow> ebridge" where
  "accept4 fd s = (if 0 \<le> fd then s\<lparr>open_fds := insert fd (open_fds s)\<rparr> else s)"

text \<open>
  \<^verbatim>\<open>log_peer_ip\<close> (lines 131--141). What \<^verbatim>\<open>getpeername\<close> gives is \<open>Inr\<close> the address and port
  of the peer as line 137 prints them (\<^verbatim>\<open>%s:%d\<close>), or, when it fails, \<open>Inl\<close> the text of
  \<^verbatim>\<open>strerror(errno)\<close>.
\<close>

definition log_peer_ip :: "string + string \<Rightarrow> string \<Rightarrow> ebridge \<Rightarrow> ebridge" where
  "log_peer_ip peer name s =
     (case peer of
        Inr addr \<Rightarrow> logmsg (''['' @ name @ ''] Connected from '' @ addr) s
      | Inl err \<Rightarrow> logmsg (''['' @ name @ ''] Could not get peer address: '' @ err) s)"

text \<open>
  \<^verbatim>\<open>read(fd, buf, len)\<close> and \<^verbatim>\<open>splice(fd, NULL, pipe[1], NULL, len, ...)\<close> on a non-blocking
  descriptor: the count returned, the bytes obtained, and \<^verbatim>\<open>errno\<close>, which a failing call
  sets.
\<close>

definition read_fd :: "rx \<Rightarrow> nat \<Rightarrow> errno \<Rightarrow> int \<times> byte list \<times> errno" where
  "read_fd r len e =
     (case r of
        RxError e' \<Rightarrow> (- 1, [], e')
      | RxEof \<Rightarrow> (0, [], e)
      | RxData bs \<Rightarrow>
          if take len bs = [] then (- 1, [], EAGAIN)
          else (int (length (take len bs)), take len bs, e))"

text \<open>
  \<^verbatim>\<open>splice(pipe[0], NULL, fd, NULL, n, ...)\<close>: up to \<open>n\<close> bytes leave the head of the pipe
  for the socket, as many as the socket has room for. The result is the pipe, the bytes
  moved, and \<^verbatim>\<open>errno\<close>.
\<close>

definition splice_out :: "tx \<Rightarrow> nat \<Rightarrow> byte list \<Rightarrow> errno \<Rightarrow> byte list \<times> byte list \<times> errno" where
  "splice_out t n pipe e =
     (case t of
        TxError e' \<Rightarrow> (pipe, [], e')
      | TxAccepts k \<Rightarrow>
          if min n k = 0 then (pipe, [], EAGAIN)
          else (drop (min n k) pipe, take (min n k) pipe, e))"

subsection \<open>ebridge.c: startup\<close>

text \<open>A function that may end the process with \<^verbatim>\<open>exit\<close>.\<close>

datatype 'a outcome = Exit int | Result 'a

text \<open>What \<^verbatim>\<open>socket\<close>, \<^verbatim>\<open>bind\<close> and \<^verbatim>\<open>listen\<close> return for one listening socket.\<close>

record listen_sys =
  socket_ret :: int
  bind_ret :: int
  listen_ret :: int

text \<open>\<^verbatim>\<open>make_listen_socket\<close> (lines 171--199).\<close>

definition make_listen_socket :: "listen_sys \<Rightarrow> int outcome" where
  "make_listen_socket y =
     (if socket_ret y < 0 then Exit 1
      else if bind_ret y < 0 then Exit 1
      else if listen_ret y < 0 then Exit 1
      else Result (socket_ret y))"

text \<open>Lines 346--347 of \<^verbatim>\<open>main\<close>: the main listening socket, then the client one.\<close>

definition listen_both :: "listen_sys \<Rightarrow> listen_sys \<Rightarrow> (int \<times> int) outcome" where
  "listen_both ym yc =
     (case make_listen_socket ym of
        Exit n \<Rightarrow> Exit n
      | Result listen_main \<Rightarrow>
          (case make_listen_socket yc of
             Exit n \<Rightarrow> Exit n
           | Result listen_client \<Rightarrow> Result (listen_main, listen_client)))"

subsection \<open>ebridge.c: the bridge\<close>

text \<open>What one turn of the loop of \<^verbatim>\<open>bridge_sockets\<close> (lines 251--271) gets from the system.\<close>

record turn =
  from_main :: rx
  to_client :: tx
  from_client :: rx
  to_main :: tx

text \<open>The locals of \<^verbatim>\<open>bridge_sockets\<close>: the contents of the two pipes, and \<^verbatim>\<open>running\<close>.\<close>

record pipes =
  pipe_m2c :: "byte list"
  pipe_c2m :: "byte list"
  running :: bool

text \<open>
  One direction of a turn (lines 252--256, and 258--262): \<^verbatim>\<open>splice\<close> from the socket into
  the pipe, and if that moved \<open>n > 0\<close> bytes, \<^verbatim>\<open>splice\<close> of \<open>n\<close> bytes from the pipe to the
  other socket, its result dropped. The pipe is taken to have room. The result is \<open>n\<close>, the
  pipe, the bytes that reached the other socket, and \<^verbatim>\<open>errno\<close>.
\<close>

definition forward :: "rx \<Rightarrow> tx \<Rightarrow> byte list \<Rightarrow> errno \<Rightarrow> int \<times> byte list \<times> byte list \<times> errno" where
  "forward r t pipe e =
     (case read_fd r 65536 e of
        (n, bs, e1) \<Rightarrow>
          if n > 0
          then (case splice_out t (nat n) (pipe @ bs) e1 of (pipe', out, e2) \<Rightarrow> (n, pipe', out, e2))
          else (n, pipe @ bs, [], e1))"

text \<open>
  A \<^verbatim>\<open>splice\<close> from a pipe to a socket is a write to the socket: when it fails with \<open>EPIPE\<close>
  the system raises \<^verbatim>\<open>SIGPIPE\<close>, which \<^verbatim>\<open>ebridge.c\<close> neither handles nor ignores (\<^verbatim>\<open>main\<close>
  installs handlers for \<^verbatim>\<open>SIGINT\<close> and \<^verbatim>\<open>SIGTERM\<close> only), and the process ends. The second
  \<^verbatim>\<open>splice\<close> of a direction is called when the first returned \<open>n > 0\<close>.
\<close>

definition sigpipe :: "int \<Rightarrow> tx \<Rightarrow> bool" where
  "sigpipe n t \<longleftrightarrow> 0 < n \<and> t = TxError EPIPE"

text \<open>
  Lines 252--268, for the sockets \<open>main_fd\<close> and \<open>client_fd\<close>: the two directions, then the
  two tests that clear \<^verbatim>\<open>running\<close>; nothing after a \<^verbatim>\<open>splice\<close> that has ended the process.
\<close>

definition bridge_turn :: "int \<Rightarrow> int \<Rightarrow> turn \<Rightarrow> pipes \<times> ebridge \<Rightarrow> pipes \<times> ebridge" where
  "bridge_turn main_fd client_fd t ps =
     (case ps of (p, s) \<Rightarrow>
      (case forward (from_main t) (to_client t) (pipe_m2c p) (errno s) of
         (n1, m2c, out1, e1) \<Rightarrow>
      if sigpipe n1 (to_client t)
      then (p\<lparr>pipe_m2c := m2c\<rparr>, s\<lparr>errno := e1, terminated := True\<rparr>)
      else
      (case forward (from_client t) (to_main t) (pipe_c2m p) e1 of
         (n2, c2m, out2, e2) \<Rightarrow>
         (p\<lparr>pipe_m2c := m2c, pipe_c2m := c2m,
             running := running p \<and> \<not> (n1 = 0 \<or> n2 = 0) \<and>
               \<not> ((n1 < 0 \<and> e2 \<noteq> EAGAIN \<and> e2 \<noteq> EWOULDBLOCK) \<or>
                  (n2 < 0 \<and> e2 \<noteq> EAGAIN \<and> e2 \<noteq> EWOULDBLOCK))\<rparr>,
          s\<lparr>errno := e2,
             sent := ((sent s)(client_fd := sent s client_fd @ out1))
                       (main_fd := ((sent s)(client_fd := sent s client_fd @ out1)) main_fd @ out2),
             terminated := terminated s \<or> sigpipe n2 (to_main t)\<rparr>))))"

text \<open>
  The loop of lines 251--271, over the turns it is given: it stops at the first turn that
  clears \<^verbatim>\<open>running\<close> or ends the process, and is still running when the turns are used up.
\<close>

fun bridge_while :: "int \<Rightarrow> int \<Rightarrow> turn list \<Rightarrow> pipes \<times> ebridge \<Rightarrow> pipes \<times> ebridge" where
  "bridge_while main_fd client_fd [] ps = ps"
| "bridge_while main_fd client_fd (t # ts) ps =
     (if running (fst ps) \<and> \<not> terminated (snd ps)
      then bridge_while main_fd client_fd ts (bridge_turn main_fd client_fd t ps)
      else ps)"

text \<open>
  \<^verbatim>\<open>bridge_sockets\<close> (lines 230--280). For each of the two calls of \<^verbatim>\<open>pipe\<close>, \<open>None\<close> says that
  it succeeds and \<open>Some\<close> gives the text of \<^verbatim>\<open>strerror(errno)\<close> when it fails. The function
  returns when the loop has ended; the result \<open>None\<close> is a loop that has not. When the
  process has been ended in the loop, the result is the state it ended in.
\<close>

definition bridge_sockets ::
  "int \<Rightarrow> int \<Rightarrow> string option \<times> string option \<Rightarrow> turn list \<Rightarrow> ebridge \<Rightarrow> ebridge option" where
  "bridge_sockets main_fd client_fd pipe_ret ts s =
     (case fst pipe_ret of
        Some err \<Rightarrow>
          Some (close_fd client_fd (close_fd main_fd (logmsg (''Failed to create pipe_m2c: '' @ err) s)))
      | None \<Rightarrow>
     (case snd pipe_ret of
        Some err \<Rightarrow>
          Some (close_fd client_fd (close_fd main_fd (logmsg (''Failed to create pipe_c2m: '' @ err) s)))
      | None \<Rightarrow>
        (case bridge_while main_fd client_fd ts
                (\<lparr>pipe_m2c = [], pipe_c2m = [], running = True\<rparr>,
                 logmsg ''[bridge] Established main<->client'' s) of
           (p, s') \<Rightarrow>
             if terminated s' then Some s'
             else if running p then None
             else Some (logmsg ''[bridge] Closed main<->client''
                          (close_fd client_fd (close_fd main_fd s'))))))"

subsection \<open>ebridge.c: the loop of main\<close>

text \<open>What one pass of the loop of \<^verbatim>\<open>main\<close> (lines 352--399) gets from the system.\<close>

record loop_in =
  main_conn :: int
  main_peer :: "string + string"
  client_conn :: int
  client_peer :: "string + string"
  pipe_ret :: "string option \<times> string option"
  turns :: "turn list"
  early :: rx
  stray_conn :: int

text \<open>Lines 353--360: accept the main connection if there is none.\<close>

definition accept_main :: "loop_in \<Rightarrow> ebridge \<Rightarrow> ebridge" where
  "accept_main i s =
     (if fd_main s < 0 then
        let s = (accept4 (main_conn i) s)\<lparr>fd_main := main_conn i\<rparr>
        in if fd_main s > 0 then log_peer_ip (main_peer i) ''main'' s else s
      else s)"

text \<open>Lines 362--369: accept the client connection if main is connected and client is not.\<close>

definition accept_client :: "loop_in \<Rightarrow> ebridge \<Rightarrow> ebridge" where
  "accept_client i s =
     (if fd_main s > 0 \<and> fd_client s < 0 then
        let s = (accept4 (client_conn i) s)\<lparr>fd_client := client_conn i\<rparr>
        in if fd_client s > 0 then log_peer_ip (client_peer i) ''client'' s else s
      else s)"

text \<open>
  Lines 372--374: run the bridge, then forget both sockets, unless the process has been
  ended in the bridge.
\<close>

definition run_bridge :: "loop_in \<Rightarrow> ebridge \<Rightarrow> ebridge option" where
  "run_bridge i s =
     (case bridge_sockets (fd_main s) (fd_client s) (pipe_ret i) (turns i) s of
        None \<Rightarrow> None
      | Some s' \<Rightarrow>
          if terminated s' then Some s'
          else Some (logmsg ''Waiting for new main connection...''
                       (s'\<lparr>fd_client := - 1, fd_main := - 1\<rparr>)))"

text \<open>Lines 378--387: main connected, client not; what \<^verbatim>\<open>read\<close> obtains is dropped.\<close>

definition early_data :: "loop_in \<Rightarrow> ebridge \<Rightarrow> ebridge" where
  "early_data i s =
     (if fd_main s > 0 \<and> fd_client s < 0 then
        (case read_fd (early i) 65536 (errno s) of (n, buf, e) \<Rightarrow>
           let s = s\<lparr>errno := e\<rparr> in
           if n \<ge> 0 \<or> (errno s \<noteq> EAGAIN \<and> errno s \<noteq> EWOULDBLOCK)
           then (close_fd (fd_main s) (logmsg ''[main] closed on early data or error'' s))\<lparr>fd_main := - 1\<rparr>
           else s)
      else s)"

text \<open>Lines 389--396: without main, a client that connects is turned away.\<close>

definition reject_client :: "loop_in \<Rightarrow> ebridge \<Rightarrow> ebridge" where
  "reject_client i s =
     (if fd_main s < 0 then
        let s = accept4 (stray_conn i) s
        in if stray_conn i > 0
           then close_fd (stray_conn i) (logmsg ''[client] Tried to connect without main. Closing.'' s)
           else s
      else s)"

text \<open>
  One pass of the loop of \<^verbatim>\<open>main\<close> (lines 352--399): the two accepts, the bridge if both are
  connected (line 371), and then, unless the process has been ended in the bridge, the
  read of early data and the rejection of a client without main.
\<close>

definition main_loop :: "loop_in \<Rightarrow> ebridge \<Rightarrow> ebridge option" where
  "main_loop i s =
     (let s = accept_client i (accept_main i s) in
      if fd_main s > 0 \<and> fd_client s > 0 then
        (case run_bridge i s of
           None \<Rightarrow> None
         | Some s' \<Rightarrow>
             if terminated s' then Some s' else Some (reject_client i (early_data i s')))
      else Some (reject_client i (early_data i s)))"

subsection \<open>ebridge.cpp: startup\<close>

text \<open>A thread has returned from its function, or is in its loop.\<close>

datatype thread = Returned | Looping

text \<open>Lines 208--226 of \<^verbatim>\<open>mainListenerThread\<close>: the thread and what it logs.\<close>

definition mainListener_start :: "listen_sys \<Rightarrow> thread \<times> string" where
  "mainListener_start y =
     (if bind_ret y < 0 then (Returned, ''Failed to bind main port'')
      else if listen_ret y < 0 then (Returned, ''Failed to listen on main port'')
      else (Looping, ''Main listener started...''))"

text \<open>Lines 270--288 of \<^verbatim>\<open>clientListenerThread\<close>.\<close>

definition clientListener_start :: "listen_sys \<Rightarrow> thread \<times> string" where
  "clientListener_start y =
     (if bind_ret y < 0 then (Returned, ''Failed to bind client port'')
      else if listen_ret y < 0 then (Returned, ''Failed to listen on client port'')
      else (Looping, ''Client listener started...''))"

text \<open>
  Lines 484--492 of \<^verbatim>\<open>main\<close>: the three threads are started and joined; \<^verbatim>\<open>bridgeLoop\<close> has
  nothing to set up and enters its loop.
\<close>

record threads =
  mainThread :: thread
  clientThread :: thread
  bridgeThread :: thread

definition start_threads :: "listen_sys \<Rightarrow> listen_sys \<Rightarrow> threads" where
  "start_threads ym yc =
     \<lparr>mainThread = fst (mainListener_start ym), clientThread = fst (clientListener_start yc),
      bridgeThread = Looping\<rparr>"

text \<open>\<^verbatim>\<open>main\<close> gets past its three joins when the three threads have returned.\<close>

definition joined :: "threads \<Rightarrow> bool" where
  "joined t \<longleftrightarrow> mainThread t = Returned \<and> clientThread t = Returned \<and> bridgeThread t = Returned"

subsection \<open>Concrete inputs for startup and for ebridge.c\<close>

text \<open>A port that cannot be bound, and one that can.\<close>

definition port_taken :: listen_sys where
  "port_taken = \<lparr>socket_ret = 3, bind_ret = - 1, listen_ret = 0\<rparr>"

definition port_free :: listen_sys where
  "port_free = \<lparr>socket_ret = 4, bind_ret = 0, listen_ret = 0\<rparr>"

text \<open>\<^verbatim>\<open>ebridge.c\<close> with the probe connected on descriptor 5 and no debugger.\<close>

definition c_waiting :: ebridge where
  "c_waiting = at_start\<lparr>fd_main := 5, open_fds := {5}\<rparr>"

text \<open>\<^verbatim>\<open>ebridge.c\<close> with both connected, on descriptors 5 and 7.\<close>

definition c_bridged :: ebridge where
  "c_bridged = at_start\<lparr>fd_main := 5, fd_client := 7, open_fds := {5, 7}\<rparr>"

text \<open>A pass in which nobody connects and the probe has sent three bytes.\<close>

definition probe_speaks :: loop_in where
  "probe_speaks = \<lparr>main_conn = - 1, main_peer = Inl [], client_conn = - 1, client_peer = Inl [],
     pipe_ret = (None, None), turns = [], early = RxData [1, 2, 3], stray_conn = - 1\<rparr>"

text \<open>A pass in which a debugger connects (descriptor 7) and no probe does.\<close>

definition debugger_first :: loop_in where
  "debugger_first = \<lparr>main_conn = - 1, main_peer = Inl [], client_conn = - 1, client_peer = Inl [],
     pipe_ret = (None, None), turns = [], early = RxError EAGAIN, stray_conn = 7\<rparr>"

text \<open>A turn in which the probe has sent three bytes, and one in which it has closed.\<close>

definition probe_sends :: turn where
  "probe_sends = \<lparr>from_main = RxData [1, 2, 3], to_client = TxAccepts 65536,
     from_client = RxError EAGAIN, to_main = TxAccepts 65536\<rparr>"

definition probe_closes :: turn where
  "probe_closes = \<lparr>from_main = RxEof, to_client = TxAccepts 65536,
     from_client = RxError EAGAIN, to_main = TxAccepts 65536\<rparr>"

text \<open>
  A turn in which the probe has sent four bytes and the socket of the debugger has room for
  two, and one in which the probe has sent one more byte and there is room again.
\<close>

definition debugger_slow :: turn where
  "debugger_slow = \<lparr>from_main = RxData [1, 2, 3, 4], to_client = TxAccepts 2,
     from_client = RxError EAGAIN, to_main = TxAccepts 65536\<rparr>"

definition probe_sends_on :: turn where
  "probe_sends_on = \<lparr>from_main = RxData [5], to_client = TxAccepts 65536,
     from_client = RxError EAGAIN, to_main = TxAccepts 65536\<rparr>"

text \<open>
  A turn in which the probe has sent three bytes and the debugger has gone, its connection
  reset: a read from its socket would return 0, and a write to it fails with \<open>EPIPE\<close>.
\<close>

definition debugger_reset :: turn where
  "debugger_reset = \<lparr>from_main = RxData [1, 2, 3], to_client = TxError EPIPE,
     from_client = RxEof, to_main = TxAccepts 65536\<rparr>"

text \<open>A pass with both connected in which the bridge relays three bytes and then ends.\<close>

definition session :: loop_in where
  "session = \<lparr>main_conn = - 1, main_peer = Inl [], client_conn = - 1, client_peer = Inl [],
     pipe_ret = (None, None), turns = [probe_sends, probe_closes], early = RxError EAGAIN,
     stray_conn = - 1\<rparr>"

text \<open>
  A pass with both connected in which the probe sends three bytes to a debugger that has
  gone; and one in which the probe sends 1, 2, 3, 4 while the debugger is slow, then 5, and
  then closes.
\<close>

definition reset_session :: loop_in where
  "reset_session = \<lparr>main_conn = - 1, main_peer = Inl [], client_conn = - 1, client_peer = Inl [],
     pipe_ret = (None, None), turns = [debugger_reset], early = RxError EAGAIN,
     stray_conn = - 1\<rparr>"

definition slow_session :: loop_in where
  "slow_session = \<lparr>main_conn = - 1, main_peer = Inl [], client_conn = - 1, client_peer = Inl [],
     pipe_ret = (None, None), turns = [debugger_slow, probe_sends_on, probe_closes],
     early = RxError EAGAIN, stray_conn = - 1\<rparr>"

subsection \<open>Relaying over several turns in ebridge.c\<close>

text \<open>What a turn reads from one side when there are bytes pending.\<close>

definition piece :: "rx \<Rightarrow> byte list" where
  "piece r = (case r of RxData bs \<Rightarrow> take 65536 bs | _ \<Rightarrow> [])"

text \<open>
  Nothing pending (\<^verbatim>\<open>EAGAIN\<close>), or bytes pending and room on the other side for what is
  read.
\<close>

definition passes_on :: "rx \<Rightarrow> tx \<Rightarrow> bool" where
  "passes_on r t \<longleftrightarrow>
     (case r of
        RxError e \<Rightarrow> e = EAGAIN
      | RxEof \<Rightarrow> False
      | RxData bs \<Rightarrow>
          bs \<noteq> [] \<and> (case t of TxAccepts k \<Rightarrow> length (take 65536 bs) \<le> k | _ \<Rightarrow> False))"

definition clean :: "turn \<Rightarrow> bool" where
  "clean t \<longleftrightarrow> passes_on (from_main t) (to_client t) \<and> passes_on (from_client t) (to_main t)"

section \<open>Properties\<close>

subsection \<open>Auxiliary facts\<close>

lemma send_fields [simp]:
  "g_mainSock (send e fd bs s) = g_mainSock s"
  "g_clientSock (send e fd bs s) = g_clientSock s"
  "g_mainConnected (send e fd bs s) = g_mainConnected s"
  "g_mainIP (send e fd bs s) = g_mainIP s"
  "g_clientIP (send e fd bs s) = g_clientIP s"
  "socks (send e fd bs s) = socks s"
  "taken (send e fd bs s) = taken s"
  "logged (send e fd bs s) = logged s"
  by (simp_all add: send_def split: tx.splits)

lemma received_fields [simp]:
  "g_mainSock (received fd bs s) = g_mainSock s"
  "g_clientSock (received fd bs s) = g_clientSock s"
  "g_mainConnected (received fd bs s) = g_mainConnected s"
  "g_mainIP (received fd bs s) = g_mainIP s"
  "g_clientIP (received fd bs s) = g_clientIP s"
  "socks (received fd bs s) = socks s"
  "wire (received fd bs s) = wire s"
  "logged (received fd bs s) = logged s"
  "killed (received fd bs s) = killed s"
  by (simp_all add: received_def)

lemma alive_step: "\<not> killed (snd c) \<Longrightarrow> alive f c = f c"
  by (simp add: alive_def)

lemma step_killed: "killed (mem p) \<Longrightarrow> step a p = p"
  by (cases a) (simp_all add: alive_def)

lemma session_ok_mainListenerThread: "session_ok s \<Longrightarrow> session_ok (mainListenerThread i s)"
  by (auto simp: session_ok_def mainListenerThread_def accepted_def close_def log_def Let_def
      split: listen_in.splits)

lemma session_ok_clientListenerThread: "session_ok s \<Longrightarrow> session_ok (clientListenerThread i s)"
  by (auto simp: session_ok_def clientListenerThread_def accepted_def close_def log_def Let_def
      split: listen_in.splits)

lemma session_ok_main_disconnected: "session_ok (main_disconnected l s)"
  by (simp add: session_ok_def main_disconnected_def close_def log_def Let_def)

lemma session_ok_client_disconnected: "session_ok s \<Longrightarrow> session_ok (client_disconnected l s)"
  by (simp add: session_ok_def client_disconnected_def close_def log_def Let_def)

lemma session_ok_send: "session_ok (send e fd bs s) = session_ok s"
  by (simp add: session_ok_def)

lemma session_ok_received: "session_ok (received fd bs s) = session_ok s"
  by (simp add: session_ok_def)

lemma session_ok_relay: "session_ok s \<Longrightarrow> session_ok (relay e l s)"
  by (auto simp: relay_def main_to_client_def client_to_main_def session_ok_send
      session_ok_received session_ok_main_disconnected session_ok_client_disconnected Let_def
      split: prod.splits)

lemma reach_session_ok: "reach s lo \<Longrightarrow> session_ok s"
proof (induction rule: reach.induct)
  case reach_start
  show ?case by (simp add: session_ok_def initial_def)
qed (simp_all add: session_ok_mainListenerThread session_ok_clientListenerThread session_ok_relay)

lemma locals_ok_mainListenerThread: "locals_ok s lo \<Longrightarrow> locals_ok (mainListenerThread i s) lo"
  by (auto simp: locals_ok_def mainListenerThread_def accepted_def close_def log_def Let_def
      split: listen_in.splits option.splits if_splits)

lemma locals_ok_clientListenerThread: "locals_ok s lo \<Longrightarrow> locals_ok (clientListenerThread i s) lo"
  by (auto simp: locals_ok_def clientListenerThread_def accepted_def close_def log_def Let_def
      split: listen_in.splits option.splits if_splits)

lemma reach_locals_ok: "reach s lo \<Longrightarrow> locals_ok s lo"
proof (induction rule: reach.induct)
  case (reach_snapshot s)
  show ?case by (simp add: locals_ok_def snapshot_def)
qed (simp_all add: locals_ok_mainListenerThread locals_ok_clientListenerThread,
     simp_all add: locals_ok_def)

lemma bridgeLoop_step_only_clears:
  "bridgeLoop_step e (pc, s) = (pc', s') \<Longrightarrow>
     (g_mainSock s' = g_mainSock s \<or> g_mainSock s' = - 1) \<and>
     (g_clientSock s' = g_clientSock s \<or> g_clientSock s' = - 1)"
  by (cases pc) (auto simp: Let_def close_def log_def split: if_splits prod.splits)

lemma mainListener_step_client:
  "mainListener_step i (pc, s) = (pc', s') \<Longrightarrow> g_clientSock s' = g_clientSock s"
  by (cases pc) (auto simp: accepted_def close_def log_def split: if_splits listen_in.splits)

lemma clientListener_step_main:
  "clientListener_step i (pc, s) = (pc', s') \<Longrightarrow> g_mainSock s' = g_mainSock s"
  by (cases pc) (auto simp: accepted_def close_def log_def split: if_splits listen_in.splits)

lemma store_pending_ok_alive: "store_pending_ok p \<Longrightarrow> \<not> killed (mem p) \<Longrightarrow> store_pending_ok (step a p)"
proof (cases a)
  case (MainListener i)
  assume ok: "store_pending_ok p" and live: "\<not> killed (mem p)"
  obtain pc' s' where st: "mainListener_step i (main_pc p, mem p) = (pc', s')" by force
  from mainListener_step_client[OF st] have c: "g_clientSock s' = g_clientSock (mem p)" .
  from st have "case pc' of M_StoreSock sock ip \<Rightarrow> g_mainSock s' = - 1 | _ \<Rightarrow> True"
    by (cases "main_pc p") (auto simp: accepted_def close_def log_def split: if_splits listen_in.splits)
  with ok c st MainListener live show ?thesis
    by (auto simp: store_pending_ok_def alive_def split: mpc.splits cpc.splits)
next
  case (ClientListener i)
  assume ok: "store_pending_ok p" and live: "\<not> killed (mem p)"
  obtain pc' s' where st: "clientListener_step i (client_pc p, mem p) = (pc', s')" by force
  from clientListener_step_main[OF st] have c: "g_mainSock s' = g_mainSock (mem p)" .
  from st have "case pc' of C_StoreSock sock ip \<Rightarrow> g_clientSock s' = - 1 | _ \<Rightarrow> True"
    by (cases "client_pc p") (auto simp: accepted_def close_def log_def split: if_splits listen_in.splits)
  with ok c st ClientListener live show ?thesis
    by (auto simp: store_pending_ok_def alive_def split: mpc.splits cpc.splits)
next
  case (BridgeLoop e)
  assume ok: "store_pending_ok p" and live: "\<not> killed (mem p)"
  obtain pc' s' where st: "bridgeLoop_step e (bridge_pc p, mem p) = (pc', s')" by force
  from bridgeLoop_step_only_clears[OF st] ok st BridgeLoop live show ?thesis
    by (auto simp: store_pending_ok_def alive_def split: mpc.splits cpc.splits)
qed

lemma store_pending_ok_step: "store_pending_ok p \<Longrightarrow> store_pending_ok (step a p)"
  by (cases "killed (mem p)") (simp_all add: step_killed store_pending_ok_alive)

lemma reachable_store_pending_ok: "reachable p \<Longrightarrow> store_pending_ok p"
  by (induction rule: reachable.induct)
     (simp_all add: store_pending_ok_step, simp add: store_pending_ok_def started_def)

lemma reachable_run: "reachable p \<Longrightarrow> reachable (run as p)"
  by (induction as arbitrary: p) (simp_all add: reachable.reachable_step)

lemma never_replaced_main:
  assumes "reachable p" "g_mainSock (mem p) \<noteq> - 1"
  shows "g_mainSock (mem (step a p)) = g_mainSock (mem p) \<or> g_mainSock (mem (step a p)) = - 1"
proof (cases "killed (mem p)")
  case True
  then show ?thesis by (simp add: step_killed)
next
  case live: False
  show ?thesis
  proof (cases a)
    case (MainListener i)
    from reachable_store_pending_ok[OF assms(1)] assms(2) MainListener live show ?thesis
      by (cases "main_pc p")
         (auto simp: store_pending_ok_def alive_def accepted_def close_def log_def
           split: listen_in.splits)
  next
    case (ClientListener i)
    obtain pc' s' where st: "clientListener_step i (client_pc p, mem p) = (pc', s')" by force
    from clientListener_step_main[OF st] st ClientListener live show ?thesis
      by (simp add: alive_def)
  next
    case (BridgeLoop e)
    obtain pc' s' where st: "bridgeLoop_step e (bridge_pc p, mem p) = (pc', s')" by force
    from bridgeLoop_step_only_clears[OF st] st BridgeLoop live show ?thesis
      by (simp add: alive_def)
  qed
qed

lemma never_replaced_client:
  assumes "reachable p" "g_clientSock (mem p) \<noteq> - 1"
  shows "g_clientSock (mem (step a p)) = g_clientSock (mem p) \<or> g_clientSock (mem (step a p)) = - 1"
proof (cases "killed (mem p)")
  case True
  then show ?thesis by (simp add: step_killed)
next
  case live: False
  show ?thesis
  proof (cases a)
    case (MainListener i)
    obtain pc' s' where st: "mainListener_step i (main_pc p, mem p) = (pc', s')" by force
    from mainListener_step_client[OF st] st MainListener live show ?thesis
      by (simp add: alive_def)
  next
    case (ClientListener i)
    from reachable_store_pending_ok[OF assms(1)] assms(2) ClientListener live show ?thesis
      by (cases "client_pc p")
         (auto simp: store_pending_ok_def alive_def accepted_def close_def log_def
           split: listen_in.splits)
  next
    case (BridgeLoop e)
    obtain pc' s' where st: "bridgeLoop_step e (bridge_pc p, mem p) = (pc', s')" by force
    from bridgeLoop_step_only_clears[OF st] st BridgeLoop live show ?thesis
      by (simp add: alive_def)
  qed
qed

subsection \<open>The passes are the threads running alone\<close>

text \<open>
  A pass of a listener, as \<open>mainListenerThread\<close> and \<open>clientListenerThread\<close> give it, is
  what the steps of the thread do from the head of its loop back to the head when no other
  thread runs in between; likewise \<open>relay\<close> from \<^verbatim>\<open>select\<close> on, and \<open>bridgeLoop\<close> for a whole
  pass.
\<close>

lemma killed_log [simp]: "killed (log msg s) = killed s"
  by (simp add: log_def)

lemma killed_close [simp]: "killed (close fd s) = killed s"
  by (simp add: close_def)

lemma killed_accepted [simp]: "killed (accepted fd s) = killed s"
  by (simp add: accepted_def)

lemma pass_last: "f c = c' \<Longrightarrow> h c' \<Longrightarrow> pass_of f h c c'"
  using pass_of.arrive[of h f c] by simp

lemma pass_step: "f c = d \<Longrightarrow> \<not> h d \<Longrightarrow> pass_of f h d c' \<Longrightarrow> pass_of f h c c'"
  using pass_of.onward[of h f c c'] by simp

lemma pass_of_unique: "pass_of f h c c1 \<Longrightarrow> pass_of f h c c2 \<Longrightarrow> c1 = c2"
proof (induction arbitrary: c2 rule: pass_of.induct)
  case (arrive c)
  from arrive(2) arrive(1) show ?case by (cases rule: pass_of.cases) simp_all
next
  case (onward c c')
  from onward(4) onward(1) have "pass_of f h (f c) c2" by (cases rule: pass_of.cases) simp_all
  then show ?case by (rule onward.IH)
qed

lemma m_last:
  assumes "\<not> killed (snd c)" "mainListener_step i c = (M_Accept, s')"
  shows "pass_of (alive (mainListener_step i)) at_M_Accept c (M_Accept, s')"
  by (rule pass_last) (simp_all add: assms alive_def at_M_Accept_def)

lemma m_step:
  assumes "pass_of (alive (mainListener_step i)) at_M_Accept (pc, s') c'"
    "\<not> killed (snd c)" "mainListener_step i c = (pc, s')" "pc \<noteq> M_Accept"
  shows "pass_of (alive (mainListener_step i)) at_M_Accept c c'"
  by (rule pass_step[where d = "(pc, s')"]) (simp_all add: assms alive_def at_M_Accept_def)

lemma mainListener_pass:
  assumes live: "\<not> killed s"
  shows "pass_of (alive (mainListener_step i)) at_M_Accept (M_Accept, s) (M_Accept, mainListenerThread i s)"
proof (cases i)
  case Timeout
  with live show ?thesis by (intro m_last) (simp_all add: mainListenerThread_def)
next
  case (Accepted sock ip)
  show ?thesis
  proof (cases "0 \<le> sock")
    case False
    with Accepted live show ?thesis by (intro m_last) (simp_all add: mainListenerThread_def)
  next
    case ok: True
    let ?s = "accepted sock s"
    show ?thesis
    proof (cases "g_mainSock s \<noteq> - 1")
      case True
      have 2: "pass_of (alive (mainListener_step i)) at_M_Accept (M_Check sock ip, ?s)
          (M_Accept, mainListenerThread i s)"
        using True Accepted ok live
        by (intro m_last) (simp_all add: mainListenerThread_def accepted_def Let_def)
      show ?thesis using Accepted ok live by (intro m_step[OF 2]) simp_all
    next
      case False
      have 4: "pass_of (alive (mainListener_step i)) at_M_Accept
          (M_StoreFlag sock ip, ?s\<lparr>g_mainSock := sock\<rparr>) (M_Accept, mainListenerThread i s)"
        using False Accepted ok live
        by (intro m_last) (simp_all add: mainListenerThread_def accepted_def Let_def)
      have 3: "pass_of (alive (mainListener_step i)) at_M_Accept
          (M_StoreSock sock ip, ?s) (M_Accept, mainListenerThread i s)"
        using live by (intro m_step[OF 4]) simp_all
      have 2: "pass_of (alive (mainListener_step i)) at_M_Accept
          (M_Check sock ip, ?s) (M_Accept, mainListenerThread i s)"
        using False live by (intro m_step[OF 3]) (simp_all add: accepted_def)
      show ?thesis using Accepted ok live by (intro m_step[OF 2]) simp_all
    qed
  qed
qed

lemma c_last:
  assumes "\<not> killed (snd c)" "clientListener_step i c = (C_Accept, s')"
  shows "pass_of (alive (clientListener_step i)) at_C_Accept c (C_Accept, s')"
  by (rule pass_last) (simp_all add: assms alive_def at_C_Accept_def)

lemma c_step:
  assumes "pass_of (alive (clientListener_step i)) at_C_Accept (pc, s') c'"
    "\<not> killed (snd c)" "clientListener_step i c = (pc, s')" "pc \<noteq> C_Accept"
  shows "pass_of (alive (clientListener_step i)) at_C_Accept c c'"
  by (rule pass_step[where d = "(pc, s')"]) (simp_all add: assms alive_def at_C_Accept_def)

lemma clientListener_pass:
  assumes live: "\<not> killed s"
  shows "pass_of (alive (clientListener_step i)) at_C_Accept (C_Accept, s) (C_Accept, clientListenerThread i s)"
proof (cases i)
  case Timeout
  with live show ?thesis by (intro c_last) (simp_all add: clientListenerThread_def)
next
  case (Accepted sock ip)
  show ?thesis
  proof (cases "0 \<le> sock")
    case False
    with Accepted live show ?thesis by (intro c_last) (simp_all add: clientListenerThread_def)
  next
    case ok: True
    let ?s = "accepted sock s"
    show ?thesis
    proof (cases "g_mainConnected s")
      case False
      have 2: "pass_of (alive (clientListener_step i)) at_C_Accept (C_CheckMain sock ip, ?s)
          (C_Accept, clientListenerThread i s)"
        using False Accepted ok live
        by (intro c_last) (simp_all add: clientListenerThread_def accepted_def Let_def)
      show ?thesis using Accepted ok live by (intro c_step[OF 2]) simp_all
    next
      case conn: True
      show ?thesis
      proof (cases "g_clientSock s \<noteq> - 1")
        case True
        have 3: "pass_of (alive (clientListener_step i)) at_C_Accept (C_CheckClient sock ip, ?s)
            (C_Accept, clientListenerThread i s)"
          using True conn Accepted ok live
          by (intro c_last) (simp_all add: clientListenerThread_def accepted_def Let_def)
        have 2: "pass_of (alive (clientListener_step i)) at_C_Accept (C_CheckMain sock ip, ?s)
            (C_Accept, clientListenerThread i s)"
          using conn live by (intro c_step[OF 3]) (simp_all add: accepted_def)
        show ?thesis using Accepted ok live by (intro c_step[OF 2]) simp_all
      next
        case False
        have 4: "pass_of (alive (clientListener_step i)) at_C_Accept (C_StoreSock sock ip, ?s)
            (C_Accept, clientListenerThread i s)"
          using False conn Accepted ok live
          by (intro c_last) (simp_all add: clientListenerThread_def accepted_def Let_def)
        have 3: "pass_of (alive (clientListener_step i)) at_C_Accept (C_CheckClient sock ip, ?s)
            (C_Accept, clientListenerThread i s)"
          using False live by (intro c_step[OF 4]) (simp_all add: accepted_def)
        have 2: "pass_of (alive (clientListener_step i)) at_C_Accept (C_CheckMain sock ip, ?s)
            (C_Accept, clientListenerThread i s)"
          using conn live by (intro c_step[OF 3]) (simp_all add: accepted_def)
        show ?thesis using Accepted ok live by (intro c_step[OF 2]) simp_all
      qed
    qed
  qed
qed

lemma b_last:
  assumes "\<not> killed (snd c)" "bridgeLoop_step e c = (pc, s')" "pc = B_LoadMain \<or> killed s'"
  shows "pass_of (alive (bridgeLoop_step e)) at_B_end c (pc, s')"
  by (rule pass_last) (use assms in \<open>simp_all add: alive_def at_B_end_def\<close>)

lemma b_step:
  assumes "pass_of (alive (bridgeLoop_step e)) at_B_end (pc, s') c'"
    "\<not> killed (snd c)" "bridgeLoop_step e c = (pc, s')" "pc \<noteq> B_LoadMain" "\<not> killed s'"
  shows "pass_of (alive (bridgeLoop_step e)) at_B_end c c'"
  by (rule pass_step[where d = "(pc, s')"]) (use assms in \<open>simp_all add: alive_def at_B_end_def\<close>)

lemma main_gone_pass:
  assumes live: "\<not> killed s"
  shows "pass_of (alive (bridgeLoop_step e)) at_B_end
     (B_MD_StoreMain,
      (let s = log ''Main disconnected'' s in if mainSockLocal l \<noteq> - 1 then close (mainSockLocal l) s else s))
     (B_LoadMain, main_disconnected l s)"
proof -
  let ?s0 = "(let s = log ''Main disconnected'' s in if mainSockLocal l \<noteq> - 1 then close (mainSockLocal l) s else s)"
  let ?s1 = "?s0\<lparr>g_mainSock := - 1\<rparr>"
  let ?s2 = "?s1\<lparr>g_mainConnected := False\<rparr>"
  have c: "g_clientSock ?s2 = g_clientSock s" by (simp add: Let_def log_def close_def)
  have k: "\<not> killed ?s0" using live by (simp add: Let_def)
  show ?thesis
  proof (cases "g_clientSock s \<noteq> - 1")
    case False
    have 3: "pass_of (alive (bridgeLoop_step e)) at_B_end (B_MD_TestClient, ?s2)
        (B_LoadMain, main_disconnected l s)"
      using False c live
      by (intro b_last) (simp_all add: main_disconnected_def Let_def log_def close_def)
    have 2: "pass_of (alive (bridgeLoop_step e)) at_B_end (B_MD_StoreFlag, ?s1)
        (B_LoadMain, main_disconnected l s)"
      using live by (intro b_step[OF 3]) (simp_all add: Let_def)
    show ?thesis using live by (intro b_step[OF 2]) (simp_all add: Let_def)
  next
    case True
    let ?s3 = "close (g_clientSock ?s2) (log ''Closing client because main disconnected'' ?s2)"
    have 5: "pass_of (alive (bridgeLoop_step e)) at_B_end (B_MD_StoreClient, ?s3)
        (B_LoadMain, main_disconnected l s)"
      using True c live
      by (intro b_last) (simp_all add: main_disconnected_def Let_def log_def close_def)
    have 4: "pass_of (alive (bridgeLoop_step e)) at_B_end (B_MD_CloseClient, ?s2)
        (B_LoadMain, main_disconnected l s)"
      using live by (intro b_step[OF 5]) (simp_all add: Let_def)
    have 3: "pass_of (alive (bridgeLoop_step e)) at_B_end (B_MD_TestClient, ?s2)
        (B_LoadMain, main_disconnected l s)"
      using True c live by (intro b_step[OF 4]) (simp_all add: Let_def)
    have 2: "pass_of (alive (bridgeLoop_step e)) at_B_end (B_MD_StoreFlag, ?s1)
        (B_LoadMain, main_disconnected l s)"
      using live by (intro b_step[OF 3]) (simp_all add: Let_def)
    show ?thesis using live by (intro b_step[OF 2]) (simp_all add: Let_def)
  qed
qed

lemma client_gone_pass:
  assumes live: "\<not> killed s"
  shows "pass_of (alive (bridgeLoop_step e)) at_B_end
     (B_CD_TestClient l, log ''Client disconnected'' s) (B_LoadMain, client_disconnected l s)"
proof -
  let ?s0 = "log ''Client disconnected'' s"
  let ?s1 = "if g_clientSock ?s0 \<noteq> - 1 then close (clientSockLocal l) ?s0 else ?s0"
  let ?s2 = "?s1\<lparr>g_clientSock := - 1\<rparr>"
  have m: "g_mainSock ?s2 = g_mainSock s" by (simp add: Let_def log_def close_def)
  show ?thesis
  proof (cases "g_mainSock s \<noteq> - 1")
    case False
    have 3: "pass_of (alive (bridgeLoop_step e)) at_B_end (B_CD_TestMain, ?s2)
        (B_LoadMain, client_disconnected l s)"
      using False m live
      by (intro b_last) (simp_all add: client_disconnected_def Let_def log_def close_def)
    have 2: "pass_of (alive (bridgeLoop_step e)) at_B_end (B_CD_StoreClient, ?s1)
        (B_LoadMain, client_disconnected l s)"
      using live by (intro b_step[OF 3]) simp_all
    show ?thesis using live by (intro b_step[OF 2]) simp_all
  next
    case True
    let ?s3 = "close (g_mainSock ?s2) (log ''Closing main because client disconnected'' ?s2)"
    let ?s4 = "?s3\<lparr>g_mainSock := - 1\<rparr>"
    have 6: "pass_of (alive (bridgeLoop_step e)) at_B_end (B_CD_StoreFlag, ?s4)
        (B_LoadMain, client_disconnected l s)"
      using True m live
      by (intro b_last) (simp_all add: client_disconnected_def Let_def log_def close_def)
    have 5: "pass_of (alive (bridgeLoop_step e)) at_B_end (B_CD_StoreMain, ?s3)
        (B_LoadMain, client_disconnected l s)"
      using live by (intro b_step[OF 6]) simp_all
    have 4: "pass_of (alive (bridgeLoop_step e)) at_B_end (B_CD_CloseMain, ?s2)
        (B_LoadMain, client_disconnected l s)"
      using live by (intro b_step[OF 5]) simp_all
    have 3: "pass_of (alive (bridgeLoop_step e)) at_B_end (B_CD_TestMain, ?s2)
        (B_LoadMain, client_disconnected l s)"
      using True m live by (intro b_step[OF 4]) simp_all
    have 2: "pass_of (alive (bridgeLoop_step e)) at_B_end (B_CD_StoreClient, ?s1)
        (B_LoadMain, client_disconnected l s)"
      using live by (intro b_step[OF 3]) simp_all
    show ?thesis using live by (intro b_step[OF 2]) simp_all
  qed
qed

lemma client_to_main_pass:
  assumes live: "\<not> killed s" and rc: "haveClient l \<longrightarrow> rc = readable e (clientSockLocal l)"
  shows "pass_of (alive (bridgeLoop_step e)) at_B_end
     (B_RecvClient l rc, s) (B_LoadMain, client_to_main e l s)"
proof (cases "haveClient l \<and> readable e (clientSockLocal l)")
  case False
  with live rc show ?thesis by (intro b_last) (auto simp: client_to_main_def)
next
  case True
  with rc have rct: "rc" by simp
  obtain n buffer where r: "recv (pending e (clientSockLocal l)) 4096 = (n, buffer)" by force
  show ?thesis
  proof (cases "n \<le> 0")
    case neg: True
    with True r have 2: "client_to_main e l s = client_disconnected l s"
      by (simp add: client_to_main_def)
    show ?thesis unfolding 2
      using True rct r neg live by (intro b_step[OF client_gone_pass[OF live]]) simp_all
  next
    case pos: False
    let ?r = "received (clientSockLocal l) buffer s"
    show ?thesis
    proof (cases "haveMain l")
      case False
      with pos True rct r live show ?thesis
        by (intro b_last) (simp_all add: client_to_main_def Let_def)
    next
      case hm: True
      have 2: "pass_of (alive (bridgeLoop_step e)) at_B_end (B_SendMain (take (nat n) buffer), ?r)
          (B_LoadMain, client_to_main e l s)"
        using hm pos True r live by (intro b_last) (simp_all add: client_to_main_def Let_def)
      show ?thesis using hm pos True rct r live by (intro b_step[OF 2]) simp_all
    qed
  qed
qed

lemma relay_pass:
  assumes live: "\<not> killed s" and hv: "haveMain l \<or> haveClient l"
  shows "\<exists>pc. pass_of (alive (bridgeLoop_step e)) at_B_end (B_Select l, s) (pc, relay e l s) \<and>
           locals_of pc = None"
proof (cases "select_ret e \<le> 0")
  case True
  with hv live have "pass_of (alive (bridgeLoop_step e)) at_B_end (B_Select l, s) (B_LoadMain, relay e l s)"
    by (intro b_last) (auto simp: relay_def)
  then show ?thesis by (auto simp: locals_of_def)
next
  case sel: False
  let ?rm = "readable e (mainSockLocal l)"
  let ?rc = "readable e (clientSockLocal l)"
  have rc: "haveClient l \<longrightarrow> ?rc = readable e (clientSockLocal l)" by simp
  have first: "pass_of (alive (bridgeLoop_step e)) at_B_end (B_Select l, s) c'"
    if "pass_of (alive (bridgeLoop_step e)) at_B_end (B_RecvMain l ?rm ?rc, s) c'" for c'
    using sel live by (intro b_step[OF that]) simp_all
  show ?thesis
  proof (cases "haveMain l \<and> readable e (mainSockLocal l)")
    case False
    from False sel hv live have 3: "relay e l s = client_to_main e l s"
      by (auto simp: relay_def main_to_client_def)
    have 2: "pass_of (alive (bridgeLoop_step e)) at_B_end (B_RecvMain l ?rm ?rc, s)
        (B_LoadMain, client_to_main e l s)"
      using False live by (intro b_step[OF client_to_main_pass[OF live rc]]) auto
    from first[OF 2] 3 show ?thesis by (auto simp: locals_of_def)
  next
    case rm: True
    then have rmt: "?rm" by simp
    obtain n buffer where r: "recv (pending e (mainSockLocal l)) 4096 = (n, buffer)" by force
    show ?thesis
    proof (cases "n \<le> 0")
      case True
      from True rm r sel hv have 3: "relay e l s = main_disconnected l s"
        by (auto simp: relay_def main_to_client_def)
      have 2: "pass_of (alive (bridgeLoop_step e)) at_B_end (B_RecvMain l ?rm ?rc, s)
          (B_LoadMain, main_disconnected l s)"
        using True rm rmt r live by (intro b_step[OF main_gone_pass[OF live]]) (simp_all add: Let_def)
      from first[OF 2] 3 show ?thesis by (auto simp: locals_of_def)
    next
      case pos: False
      let ?r = "received (mainSockLocal l) buffer s"
      have liver: "\<not> killed ?r" using live by simp
      show ?thesis
      proof (cases "haveClient l")
        case False
        from False pos rm r sel live have 3: "relay e l s = client_to_main e l ?r"
          by (simp add: relay_def main_to_client_def Let_def)
        have 2: "pass_of (alive (bridgeLoop_step e)) at_B_end (B_RecvMain l ?rm ?rc, s)
            (B_LoadMain, client_to_main e l ?r)"
          using False pos rm rmt r live
          by (intro b_step[OF client_to_main_pass[OF liver rc]]) simp_all
        from first[OF 2] 3 show ?thesis by (auto simp: locals_of_def)
      next
        case hc: True
        let ?s1 = "send e (g_clientSock ?r) (take (nat n) buffer) ?r"
        from hc pos rm r sel have m2c: "main_to_client e l s = (False, ?s1)"
          by (simp add: main_to_client_def Let_def)
        show ?thesis
        proof (cases "killed ?s1")
          case True
          with m2c sel hv have 4: "relay e l s = ?s1" by (auto simp: relay_def)
          have 3: "pass_of (alive (bridgeLoop_step e)) at_B_end (B_SendClient l ?rc (take (nat n) buffer), ?r)
              (B_RecvClient l ?rc, ?s1)"
            using True liver by (intro b_last) simp_all
          have 2: "pass_of (alive (bridgeLoop_step e)) at_B_end (B_RecvMain l ?rm ?rc, s)
              (B_RecvClient l ?rc, ?s1)"
            using hc pos rm rmt r live by (intro b_step[OF 3]) simp_all
          from first[OF 2] 4 show ?thesis by (auto simp: locals_of_def)
        next
          case False
          with m2c sel hv have 4: "relay e l s = client_to_main e l ?s1" by (auto simp: relay_def)
          have 3: "pass_of (alive (bridgeLoop_step e)) at_B_end (B_SendClient l ?rc (take (nat n) buffer), ?r)
              (B_LoadMain, client_to_main e l ?s1)"
            using False liver by (intro b_step[OF client_to_main_pass[OF False rc]]) simp_all
          have 2: "pass_of (alive (bridgeLoop_step e)) at_B_end (B_RecvMain l ?rm ?rc, s)
              (B_LoadMain, client_to_main e l ?s1)"
            using hc pos rm rmt r live by (intro b_step[OF 3]) simp_all
          from first[OF 2] 4 show ?thesis by (auto simp: locals_of_def)
        qed
      qed
    qed
  qed
qed

lemma head_pass:
  assumes live: "\<not> killed s"
    and rest: "pass_of (alive (bridgeLoop_step e)) at_B_end
                 (B_HaveClient (g_mainSock s) (g_clientSock s) (g_mainSock s \<noteq> - 1), s) c'"
  shows "pass_of (alive (bridgeLoop_step e)) at_B_end (B_LoadMain, s) c'"
proof -
  have 2: "pass_of (alive (bridgeLoop_step e)) at_B_end (B_HaveMain (g_mainSock s) (g_clientSock s), s) c'"
    using live by (intro b_step[OF rest]) simp_all
  have 1: "pass_of (alive (bridgeLoop_step e)) at_B_end (B_LoadClient (g_mainSock s), s) c'"
    using live by (intro b_step[OF 2]) simp_all
  show ?thesis using live by (intro b_step[OF 1]) simp_all
qed

lemma bridgeLoop_pass:
  assumes live: "\<not> killed s"
  shows "\<exists>pc. pass_of (alive (bridgeLoop_step e)) at_B_end (B_LoadMain, s) (pc, bridgeLoop e s)"
proof (cases "g_mainSock s = - 1 \<and> g_clientSock s = - 1")
  case True
  with live have "pass_of (alive (bridgeLoop_step e)) at_B_end
      (B_HaveClient (g_mainSock s) (g_clientSock s) (g_mainSock s \<noteq> - 1), s) (B_LoadMain, bridgeLoop e s)"
    by (intro b_last) (simp_all add: bridgeLoop_def relay_def snapshot_def)
  from head_pass[OF live this] show ?thesis by blast
next
  case False
  have l: "haveMain (snapshot s) \<or> haveClient (snapshot s)"
    using False by (auto simp: snapshot_def)
  from relay_pass[OF live l, of e] obtain pc where
    p: "pass_of (alive (bridgeLoop_step e)) at_B_end (B_Select (snapshot s), s) (pc, relay e (snapshot s) s)"
    by blast
  have "pass_of (alive (bridgeLoop_step e)) at_B_end
      (B_HaveClient (g_mainSock s) (g_clientSock s) (g_mainSock s \<noteq> - 1), s) (pc, relay e (snapshot s) s)"
    using False live by (intro b_step[OF p]) (auto simp: snapshot_def)
  from head_pass[OF live this] show ?thesis by (auto simp: bridgeLoop_def)
qed

text \<open>
  So the states of the process under the schedules that leave the passes uninterrupted are
  states of the passes taken as steps, and they are states of the process.
\<close>

lemma snapshot_pass:
  assumes live: "\<not> killed s"
  shows "pass_of (alive (bridgeLoop_step e)) at_B_Select (B_LoadMain, s)
     (if g_mainSock s = - 1 \<and> g_clientSock s = - 1 then (B_LoadMain, s)
      else (B_Select (snapshot s), s))"
proof -
  let ?c4 = "(if g_mainSock s = - 1 \<and> g_clientSock s = - 1 then (B_LoadMain, s)
      else (B_Select (snapshot s), s))"
  have 4: "alive (bridgeLoop_step e) (B_HaveClient (g_mainSock s) (g_clientSock s) (g_mainSock s \<noteq> - 1), s) = ?c4"
    using live by (auto simp: snapshot_def alive_def)
  have h: "at_B_Select ?c4" by (simp add: at_B_Select_def)
  show ?thesis
    apply (rule pass_step[where f = "alive (bridgeLoop_step e)" and d = "(B_LoadClient (g_mainSock s), s)"])
      apply (simp add: alive_def live)
     apply (simp add: at_B_Select_def)
    apply (rule pass_step[where f = "alive (bridgeLoop_step e)" and d = "(B_HaveMain (g_mainSock s) (g_clientSock s), s)"])
      apply (simp add: alive_def live)
     apply (simp add: at_B_Select_def)
    apply (rule pass_step[where f = "alive (bridgeLoop_step e)" and d = "(B_HaveClient (g_mainSock s) (g_clientSock s) (g_mainSock s \<noteq> - 1), s)"])
      apply (simp add: alive_def live)
     apply (simp add: at_B_Select_def)
    apply (rule pass_last[where f = "alive (bridgeLoop_step e)" and h = at_B_Select, OF 4])
    apply (rule h)
    done
qed

lemma calm_reach:
  "calm p \<Longrightarrow>
   reach (mem p) (locals_of (bridge_pc p)) \<and> main_pc p = M_Accept \<and> client_pc p = C_Accept \<and>
   (killed (mem p) \<or> bridge_pc p = B_LoadMain \<or>
    (\<exists>l. bridge_pc p = B_Select l \<and> (haveMain l \<or> haveClient l)))"
proof (induction rule: calm.induct)
  case calm_start
  show ?case by (simp add: started_def locals_of_def reach.reach_start)
next
  case (calm_main p i pc s)
  then have "pass_of (alive (mainListener_step i)) at_M_Accept (M_Accept, mem p) (pc, s)" by simp
  from pass_of_unique[OF this mainListener_pass[OF calm_main.hyps(2)]]
  have e: "pc = M_Accept" "s = mainListenerThread i (mem p)" by simp_all
  have k: "killed (mainListenerThread i (mem p)) = killed (mem p)"
    by (simp add: mainListenerThread_def Let_def split: listen_in.splits)
  from e k calm_main.IH calm_main.hyps(2) show ?case
    by (auto intro: reach.reach_main)
next
  case (calm_client p i pc s)
  then have "pass_of (alive (clientListener_step i)) at_C_Accept (C_Accept, mem p) (pc, s)" by simp
  from pass_of_unique[OF this clientListener_pass[OF calm_client.hyps(2)]]
  have e: "pc = C_Accept" "s = clientListenerThread i (mem p)" by simp_all
  have k: "killed (clientListenerThread i (mem p)) = killed (mem p)"
    by (simp add: clientListenerThread_def Let_def split: listen_in.splits)
  from e k calm_client.IH calm_client.hyps(2) show ?case
    by (auto intro: reach.reach_client)
next
  case (calm_head p e pc s)
  then have "pass_of (alive (bridgeLoop_step e)) at_B_Select (B_LoadMain, mem p) (pc, s)" by simp
  from pass_of_unique[OF this snapshot_pass[OF calm_head.hyps(2)]] have
    r: "(pc, s) = (if g_mainSock (mem p) = - 1 \<and> g_clientSock (mem p) = - 1 then (B_LoadMain, mem p)
      else (B_Select (snapshot (mem p)), mem p))" .
  from calm_head.IH calm_head.hyps(3) have rn: "reach (mem p) None" by (simp add: locals_of_def)
  show ?case
  proof (cases "g_mainSock (mem p) = - 1 \<and> g_clientSock (mem p) = - 1")
    case True
    with r rn calm_head.IH show ?thesis by (simp add: locals_of_def)
  next
    case False
    with r have "pc = B_Select (snapshot (mem p))" "s = mem p" by simp_all
    with False reach.reach_snapshot[OF rn calm_head.hyps(2)] calm_head.IH show ?thesis
      by (auto simp: locals_of_def snapshot_def)
  qed
next
  case (calm_relay p l e pc s)
  from calm_relay.IH calm_relay.hyps(2,3) have rl: "reach (mem p) (Some l)"
    and hv: "haveMain l \<or> haveClient l" by (simp_all add: locals_of_def)
  from relay_pass[OF calm_relay.hyps(2) hv, of e] obtain pc' where
    p': "pass_of (alive (bridgeLoop_step e)) at_B_end (B_Select l, mem p) (pc', relay e l (mem p))"
    and n: "locals_of pc' = None" by blast
  from calm_relay.hyps have "pass_of (alive (bridgeLoop_step e)) at_B_end (B_Select l, mem p) (pc, s)" by simp
  from pass_of_unique[OF this p'] have e: "pc = pc'" "s = relay e l (mem p)" by simp_all
  from p' have "at_B_end (pc', relay e l (mem p))" by (induction rule: pass_of.induct) simp_all
  then have "pc' = B_LoadMain \<or> killed (relay e l (mem p))" by (simp add: at_B_end_def)
  with e n reach.reach_relay[OF rl calm_relay.hyps(2), of e] calm_relay.IH show ?case by auto
qed

lemma pass_of_main_run:
  "pass_of (alive (mainListener_step i)) h c c' \<Longrightarrow> c = (main_pc p, mem p) \<Longrightarrow>
   \<exists>as. run as p = p\<lparr>mem := snd c', main_pc := fst c'\<rparr>"
proof (induction arbitrary: p rule: pass_of.induct)
  case (arrive c)
  then have "run [MainListener i] p =
      p\<lparr>mem := snd (alive (mainListener_step i) c), main_pc := fst (alive (mainListener_step i) c)\<rparr>"
    by (simp split: prod.splits)
  then show ?case by blast
next
  case (onward c c')
  let ?p = "step (MainListener i) p"
  from onward.prems have "alive (mainListener_step i) c = (main_pc ?p, mem ?p)" by (simp split: prod.splits)
  from onward.IH[OF this] obtain as where "run as ?p = ?p\<lparr>mem := snd c', main_pc := fst c'\<rparr>" by blast
  then have "run (MainListener i # as) p = p\<lparr>mem := snd c', main_pc := fst c'\<rparr>"
    by (simp split: prod.splits)
  then show ?case by blast
qed

lemma pass_of_client_run:
  "pass_of (alive (clientListener_step i)) h c c' \<Longrightarrow> c = (client_pc p, mem p) \<Longrightarrow>
   \<exists>as. run as p = p\<lparr>mem := snd c', client_pc := fst c'\<rparr>"
proof (induction arbitrary: p rule: pass_of.induct)
  case (arrive c)
  then have "run [ClientListener i] p =
      p\<lparr>mem := snd (alive (clientListener_step i) c), client_pc := fst (alive (clientListener_step i) c)\<rparr>"
    by (simp split: prod.splits)
  then show ?case by blast
next
  case (onward c c')
  let ?p = "step (ClientListener i) p"
  from onward.prems have "alive (clientListener_step i) c = (client_pc ?p, mem ?p)" by (simp split: prod.splits)
  from onward.IH[OF this] obtain as where "run as ?p = ?p\<lparr>mem := snd c', client_pc := fst c'\<rparr>" by blast
  then have "run (ClientListener i # as) p = p\<lparr>mem := snd c', client_pc := fst c'\<rparr>"
    by (simp split: prod.splits)
  then show ?case by blast
qed

lemma pass_of_bridge_run:
  "pass_of (alive (bridgeLoop_step e)) h c c' \<Longrightarrow> c = (bridge_pc p, mem p) \<Longrightarrow>
   \<exists>as. run as p = p\<lparr>mem := snd c', bridge_pc := fst c'\<rparr>"
proof (induction arbitrary: p rule: pass_of.induct)
  case (arrive c)
  then have "run [BridgeLoop e] p =
      p\<lparr>mem := snd (alive (bridgeLoop_step e) c), bridge_pc := fst (alive (bridgeLoop_step e) c)\<rparr>"
    by (simp split: prod.splits)
  then show ?case by blast
next
  case (onward c c')
  let ?p = "step (BridgeLoop e) p"
  from onward.prems have "alive (bridgeLoop_step e) c = (bridge_pc ?p, mem ?p)" by (simp split: prod.splits)
  from onward.IH[OF this] obtain as where "run as ?p = ?p\<lparr>mem := snd c', bridge_pc := fst c'\<rparr>" by blast
  then have "run (BridgeLoop e # as) p = p\<lparr>mem := snd c', bridge_pc := fst c'\<rparr>"
    by (simp split: prod.splits)
  then show ?case by blast
qed

lemma calm_reachable: "calm p \<Longrightarrow> reachable p"
proof (induction rule: calm.induct)
  case calm_start
  show ?case by (rule reachable.reachable_start)
next
  case (calm_main p i pc s)
  from pass_of_main_run[OF calm_main.hyps(3) refl] obtain as where
    "run as p = p\<lparr>mem := s, main_pc := pc\<rparr>" by auto
  with reachable_run[OF calm_main.IH, of as] show ?case by simp
next
  case (calm_client p i pc s)
  from pass_of_client_run[OF calm_client.hyps(3) refl] obtain as where
    "run as p = p\<lparr>mem := s, client_pc := pc\<rparr>" by auto
  with reachable_run[OF calm_client.IH, of as] show ?case by simp
next
  case (calm_head p e pc s)
  from pass_of_bridge_run[OF calm_head.hyps(4) refl] obtain as where
    "run as p = p\<lparr>mem := s, bridge_pc := pc\<rparr>" by auto
  with reachable_run[OF calm_head.IH, of as] show ?case by simp
next
  case (calm_relay p l e pc s)
  from pass_of_bridge_run[OF calm_relay.hyps(4) refl] obtain as where
    "run as p = p\<lparr>mem := s, bridge_pc := pc\<rparr>" by auto
  with reachable_run[OF calm_relay.IH, of as] show ?case by simp
qed

lemma calm_session_ok: "calm p \<Longrightarrow> session_ok (mem p)"
  using reach_session_ok[of "mem p" "locals_of (bridge_pc p)"] calm_reach[of p] by simp

lemma take_nonempty: "bs \<noteq> [] \<Longrightarrow> 0 < n \<Longrightarrow> take n bs \<noteq> []"
  by (cases bs) auto

lemma recv_data:
  "bs \<noteq> [] \<Longrightarrow> 0 < len \<Longrightarrow> recv (RxData bs) len = (int (length (take len bs)), take len bs)"
  by (simp add: recv_def take_nonempty)

lemma read_fd_data:
  "bs \<noteq> [] \<Longrightarrow> 0 < len \<Longrightarrow>
   read_fd (RxData bs) len e = (int (length (take len bs)), take len bs, e)"
  by (simp add: read_fd_def take_nonempty)

subsection \<open>Tearing a session down\<close>

lemma main_disconnected_clears:
  "g_mainSock (main_disconnected l s) = - 1 \<and> g_clientSock (main_disconnected l s) = - 1 \<and>
   \<not> g_mainConnected (main_disconnected l s)"
  by (simp add: main_disconnected_def close_def log_def Let_def)

lemma main_disconnected_socks:
  "mainSockLocal l = g_mainSock s \<Longrightarrow> g_mainSock s \<noteq> - 1 \<Longrightarrow> g_clientSock s \<noteq> - 1 \<Longrightarrow>
   socks (main_disconnected l s) = socks s - {g_mainSock s, g_clientSock s}"
  by (auto simp: main_disconnected_def close_def log_def Let_def)

lemma client_disconnected_clears:
  "g_mainSock (client_disconnected l s) = - 1 \<and> g_clientSock (client_disconnected l s) = - 1"
  by (simp add: client_disconnected_def close_def log_def Let_def)

lemma client_disconnected_flag:
  "g_mainSock s \<noteq> - 1 \<Longrightarrow> \<not> g_mainConnected (client_disconnected l s)"
  by (simp add: client_disconnected_def close_def log_def Let_def)

lemma client_disconnected_socks:
  "clientSockLocal l = g_clientSock s \<Longrightarrow> g_mainSock s \<noteq> - 1 \<Longrightarrow> g_clientSock s \<noteq> - 1 \<Longrightarrow>
   socks (client_disconnected l s) = socks s - {g_mainSock s, g_clientSock s}"
  by (auto simp: client_disconnected_def close_def log_def Let_def)

lemma main_to_client_passes:
  assumes "\<not> (haveMain l \<and> readable e (mainSockLocal l) \<and>
                 fst (recv (pending e (mainSockLocal l)) 4096) \<le> 0)"
  shows "\<exists>s1. main_to_client e l s = (False, s1) \<and> g_mainSock s1 = g_mainSock s \<and>
           g_clientSock s1 = g_clientSock s \<and> socks s1 = socks s"
proof (cases "haveMain l \<and> readable e (mainSockLocal l)")
  case False
  then show ?thesis by (auto simp: main_to_client_def)
next
  case True
  obtain n buffer where r: "recv (pending e (mainSockLocal l)) 4096 = (n, buffer)" by force
  with True assms have "\<not> n \<le> 0" by simp
  with True r show ?thesis by (simp add: main_to_client_def Let_def)
qed

text \<open>
  Run from \<^verbatim>\<open>select\<close> with no other thread in between, and with locals that name the two
  sockets, a pass in which \<^verbatim>\<open>recv\<close> returns \<open>n \<le> 0\<close> on either socket closes both and clears
  the three globals, unless the \<^verbatim>\<open>send\<close> of line 386 has ended the process before.
\<close>

lemma relay_teardown:
  assumes ok: "locals_ok s (Some l)"
    and both: "g_mainSock s \<noteq> - 1" "g_clientSock s \<noteq> - 1"
    and sel: "0 < select_ret e"
    and seen: "(haveMain l \<and> readable e (mainSockLocal l) \<and>
                 fst (recv (pending e (mainSockLocal l)) 4096) \<le> 0) \<or>
               (haveClient l \<and> readable e (clientSockLocal l) \<and>
                 fst (recv (pending e (clientSockLocal l)) 4096) \<le> 0)"
    and live: "\<not> killed (relay e l s)"
  shows "g_mainSock (relay e l s) = - 1 \<and> g_clientSock (relay e l s) = - 1 \<and>
         \<not> g_mainConnected (relay e l s) \<and>
         socks (relay e l s) = socks s - {g_mainSock s, g_clientSock s}"
proof (cases "haveMain l \<and> readable e (mainSockLocal l) \<and>
                 fst (recv (pending e (mainSockLocal l)) 4096) \<le> 0")
  case True
  then have m: "mainSockLocal l = g_mainSock s" using ok by (simp add: locals_ok_def)
  from True sel have "relay e l s = main_disconnected l s"
    by (auto simp: relay_def main_to_client_def split: prod.splits)
  with main_disconnected_clears[of l s] main_disconnected_socks[OF m both] show ?thesis by simp
next
  case False
  with seen have c: "haveClient l" "readable e (clientSockLocal l)"
    "fst (recv (pending e (clientSockLocal l)) 4096) \<le> 0" by auto
  then have cl: "clientSockLocal l = g_clientSock s" using ok by (simp add: locals_ok_def)
  obtain s1 where m2c: "main_to_client e l s = (False, s1)"
    and s1: "g_mainSock s1 = g_mainSock s" "g_clientSock s1 = g_clientSock s" "socks s1 = socks s"
    using main_to_client_passes[OF False, of s] by blast
  obtain n buffer where rc: "recv (pending e (clientSockLocal l)) 4096 = (n, buffer)" by force
  with c have "n \<le> 0" by simp
  from c sel m2c live have l1: "\<not> killed s1" by (auto simp: relay_def)
  with c sel m2c rc \<open>n \<le> 0\<close> have r: "relay e l s = client_disconnected l s1"
    by (simp add: relay_def client_to_main_def)
  from cl s1 have cl1: "clientSockLocal l = g_clientSock s1" by simp
  from both s1 have m1: "g_mainSock s1 \<noteq> - 1" and c1: "g_clientSock s1 \<noteq> - 1" by simp_all
  from r client_disconnected_clears[of l s1] client_disconnected_flag[OF m1, of l]
    client_disconnected_socks[OF cl1 m1 c1] s1
  show ?thesis by simp
qed

text \<open>
  A pass that started with locals that disagree goes on to the head of the loop and changes
  nothing; the pass after it finds the main socket at its end and tears down.
\<close>

lemma stale_locals_go_on:
  "bridge_pc (run stale_locals started) =
     B_Select \<lparr>mainSockLocal = - 1, clientSockLocal = - 1, haveMain = True, haveClient = False\<rparr> \<and>
   g_mainSock (mem (run stale_locals started)) = 5 \<and>
   quiescent (run stale_pass started) \<and>
   mem (run stale_pass started) = mem (run stale_locals started) \<and>
   quiescent (run stale_then_fresh started) \<and>
   g_mainSock (mem (run stale_then_fresh started)) = - 1 \<and>
   g_mainConnected (mem (run stale_then_fresh started)) = False \<and>
   socks (mem (run stale_then_fresh started)) = {}"
proof -
  have "socks (mem (run stale_then_fresh started)) = {}"
    by (auto simp: stale_then_fresh_def stale_pass_def stale_locals_def started_def initial_def
        main_arrives_def main_gone_def alive_def accepted_def close_def log_def recv_def Let_def)
  moreover have "bridge_pc (run stale_locals started) =
     B_Select \<lparr>mainSockLocal = - 1, clientSockLocal = - 1, haveMain = True, haveClient = False\<rparr> \<and>
   g_mainSock (mem (run stale_locals started)) = 5 \<and>
   quiescent (run stale_pass started) \<and>
   mem (run stale_pass started) = mem (run stale_locals started) \<and>
   quiescent (run stale_then_fresh started) \<and>
   g_mainSock (mem (run stale_then_fresh started)) = - 1 \<and>
   g_mainConnected (mem (run stale_then_fresh started)) = False"
    by (simp add: stale_then_fresh_def stale_pass_def stale_locals_def started_def initial_def
        main_arrives_def main_gone_def quiescent_def alive_def accepted_def close_def log_def
        recv_def Let_def)
  ultimately show ?thesis by simp
qed

lemma read_fd_zero: "fst (read_fd r len e) = 0 \<longleftrightarrow> r = RxEof"
  by (simp add: read_fd_def split: rx.splits)

lemma forward_zero: "fst (forward r t pipe e) = 0 \<longleftrightarrow> r = RxEof"
proof -
  obtain n bs e1 where rd: "read_fd r 65536 e = (n, bs, e1)" by (cases "read_fd r 65536 e") auto
  with read_fd_zero[of r 65536 e] have z: "n = 0 \<longleftrightarrow> r = RxEof" by simp
  from rd z show ?thesis by (auto simp: forward_def split: prod.splits)
qed

lemma bridge_turn_eof:
  assumes "from_main t = RxEof \<or> from_client t = RxEof"
  shows "\<not> running (fst (bridge_turn m c t (p, s))) \<or> terminated (snd (bridge_turn m c t (p, s)))"
proof -
  obtain n1 m2c out1 e1 where f1: "forward (from_main t) (to_client t) (pipe_m2c p) (errno s) = (n1, m2c, out1, e1)"
    by (cases "forward (from_main t) (to_client t) (pipe_m2c p) (errno s)") auto
  obtain n2 c2m out2 e2 where f2: "forward (from_client t) (to_main t) (pipe_c2m p) e1 = (n2, c2m, out2, e2)"
    by (cases "forward (from_client t) (to_main t) (pipe_c2m p) e1") auto
  from f1 forward_zero[of "from_main t" "to_client t" "pipe_m2c p" "errno s"]
  have z1: "n1 = 0 \<longleftrightarrow> from_main t = RxEof" by simp
  from f2 forward_zero[of "from_client t" "to_main t" "pipe_c2m p" e1]
  have z2: "n2 = 0 \<longleftrightarrow> from_client t = RxEof" by simp
  from assms z1 z2 f1 f2 show ?thesis by (auto simp: bridge_turn_def)
qed

lemma bridge_turn_fds:
  "fd_main (snd (bridge_turn m c t ps)) = fd_main (snd ps) \<and>
   fd_client (snd (bridge_turn m c t ps)) = fd_client (snd ps) \<and>
   open_fds (snd (bridge_turn m c t ps)) = open_fds (snd ps) \<and>
   printed (snd (bridge_turn m c t ps)) = printed (snd ps)"
  by (cases ps) (simp add: bridge_turn_def split: prod.splits)

lemma bridge_while_fds:
  "fd_main (snd (bridge_while m c ts ps)) = fd_main (snd ps) \<and>
   fd_client (snd (bridge_while m c ts ps)) = fd_client (snd ps) \<and>
   open_fds (snd (bridge_while m c ts ps)) = open_fds (snd ps) \<and>
   printed (snd (bridge_while m c ts ps)) = printed (snd ps)"
  by (induction ts arbitrary: ps) (simp_all add: bridge_turn_fds)

lemma bridge_sockets_closes:
  assumes "bridge_sockets m k pk ts c = Some c'" "\<not> terminated c'"
  shows "fd_main c' = fd_main c \<and> fd_client c' = fd_client c \<and> open_fds c' = open_fds c - {m, k}"
proof -
  let ?ps = "(\<lparr>pipe_m2c = [], pipe_c2m = [], running = True\<rparr>, logmsg ''[bridge] Established main<->client'' c)"
  obtain p s' where w: "bridge_while m k ts ?ps = (p, s')"
    by (cases "bridge_while m k ts ?ps") auto
  with bridge_while_fds[of m k ts ?ps]
  have kk: "open_fds s' = open_fds c" "fd_main s' = fd_main c" "fd_client s' = fd_client c"
    by (simp_all add: logmsg_def)
  show ?thesis
  proof (cases "fst pk")
    case (Some err)
    with assms show ?thesis by (auto simp: bridge_sockets_def close_fd_def logmsg_def)
  next
    case f: None
    show ?thesis
    proof (cases "snd pk")
      case (Some err)
      with f assms show ?thesis by (auto simp: bridge_sockets_def close_fd_def logmsg_def)
    next
      case None
      with f assms w have "c' = logmsg ''[bridge] Closed main<->client'' (close_fd k (close_fd m s'))"
        by (auto simp: bridge_sockets_def split: if_splits)
      with kk show ?thesis by (auto simp: close_fd_def logmsg_def)
    qed
  qed
qed

text \<open>
  In \<^verbatim>\<open>ebridge.c\<close>, when \<^verbatim>\<open>bridge_sockets\<close> returns both sockets are closed, and \<^verbatim>\<open>main\<close> clears
  \<^verbatim>\<open>fd_main\<close> and \<^verbatim>\<open>fd_client\<close>.
\<close>

lemma run_bridge_clears:
  assumes "run_bridge i c = Some c'" "\<not> terminated c'"
  shows "fd_main c' = - 1 \<and> fd_client c' = - 1 \<and>
         open_fds c' = open_fds c - {fd_main c, fd_client c}"
proof -
  from assms obtain c1 where b: "bridge_sockets (fd_main c) (fd_client c) (pipe_ret i) (turns i) c = Some c1"
    and c': "c' = logmsg ''Waiting for new main connection...'' (c1\<lparr>fd_client := - 1, fd_main := - 1\<rparr>)"
    and t1: "\<not> terminated c1"
    by (auto simp: run_bridge_def split: option.splits if_splits)
  from bridge_sockets_closes[OF b t1] c' show ?thesis by (simp add: logmsg_def)
qed

lemma bridge_while_stops:
  "\<not> running (fst ps) \<or> terminated (snd ps) \<Longrightarrow> bridge_while m c ts ps = ps"
  by (cases ts) auto

lemma bridge_while_eof:
  assumes "from_main t = RxEof \<or> from_client t = RxEof"
  shows "\<not> running (fst (bridge_while m c (ts @ t # ts') ps)) \<or>
         terminated (snd (bridge_while m c (ts @ t # ts') ps))"
proof (induction ts arbitrary: ps)
  case Nil
  show ?case
  proof (cases "running (fst ps) \<and> \<not> terminated (snd ps)")
    case True
    with bridge_turn_eof[OF assms, of m c "fst ps" "snd ps"]
      bridge_while_stops[of "bridge_turn m c t ps" m c ts'] show ?thesis
      by auto
  next
    case False
    then show ?thesis by auto
  qed
next
  case (Cons a ts)
  then show ?case by simp
qed

subsection \<open>Relaying\<close>

lemma chunk_length: "length (chunk e fd) \<le> 4096"
  by (simp add: chunk_def split: rx.splits)

lemma piece_length: "length (piece r) \<le> 65536"
  by (simp add: piece_def split: rx.splits)

lemma chunk_quiet: "\<not> (0 < select_ret e \<and> readable e fd) \<Longrightarrow> chunk e fd = []"
  by (auto simp: chunk_def)

lemma send_whole:
  assumes "fd \<in> socks s" "room e fd = TxAccepts k" "length bs \<le> k"
  shows "send e fd bs s = s\<lparr>wire := (wire s)(fd := wire s fd @ bs)\<rparr>"
  using assms by (simp add: send_def)

lemma flows_recv:
  assumes "flows e src dst" "0 < select_ret e" "readable e src"
  shows "recv (pending e src) 4096 = (int (length (chunk e src)), chunk e src) \<and>
         0 < length (chunk e src) \<and> (\<exists>k. room e dst = TxAccepts k \<and> length (chunk e src) \<le> k)"
proof -
  from assms obtain bs where p: "pending e src = RxData bs" and ne: "bs \<noteq> []"
    and r: "case room e dst of TxAccepts k \<Rightarrow> length (take 4096 bs) \<le> k | _ \<Rightarrow> False"
    by (auto simp: flows_def split: rx.splits)
  from r obtain k where k: "room e dst = TxAccepts k" "length (take 4096 bs) \<le> k"
    by (auto split: tx.splits)
  from p assms have c: "chunk e src = take 4096 bs" by (simp add: chunk_def)
  from ne have "take 4096 bs \<noteq> []" by (simp add: take_nonempty)
  then have "0 < length (take 4096 bs)" by blast
  with p ne c k show ?thesis by (simp add: recv_data del: length_take)
qed

text \<open>
  A pass of \<^verbatim>\<open>bridgeLoop\<close> with both sockets set in which the system takes each chunk whole:
  what is read from one socket is what the other is sent.
\<close>

lemma main_to_client_flows:
  assumes "haveMain l" "haveClient l" "mainSockLocal l = m" "g_clientSock s = c" "c \<in> socks s"
    "flows e m c" "0 < select_ret e"
  shows "main_to_client e l s =
           (False, s\<lparr>taken := (taken s)(m := taken s m @ chunk e m),
                      wire := (wire s)(c := wire s c @ chunk e m)\<rparr>)"
proof (cases "readable e m")
  case False
  with assms chunk_quiet[of e m] show ?thesis by (simp add: main_to_client_def)
next
  case True
  from flows_recv[OF assms(6,7) True] obtain k where
    r: "recv (pending e m) 4096 = (int (length (chunk e m)), chunk e m)"
    and pos: "0 < length (chunk e m)" and k: "room e c = TxAccepts k" "length (chunk e m) \<le> k"
    by blast
  from assms(5) have "c \<in> socks (received m (chunk e m) s)" by simp
  from send_whole[OF this k] assms True r pos show ?thesis
    by (simp add: main_to_client_def Let_def received_def)
qed

lemma client_to_main_flows:
  assumes "haveMain l" "haveClient l" "clientSockLocal l = c" "g_mainSock s = m" "m \<in> socks s"
    "flows e c m" "0 < select_ret e"
  shows "client_to_main e l s =
           s\<lparr>taken := (taken s)(c := taken s c @ chunk e c),
              wire := (wire s)(m := wire s m @ chunk e c)\<rparr>"
proof (cases "readable e c")
  case False
  with assms chunk_quiet[of e c] show ?thesis by (simp add: client_to_main_def)
next
  case True
  from flows_recv[OF assms(6,7) True] obtain k where
    r: "recv (pending e c) 4096 = (int (length (chunk e c)), chunk e c)"
    and pos: "0 < length (chunk e c)" and k: "room e m = TxAccepts k" "length (chunk e c) \<le> k"
    by blast
  from assms(5) have "m \<in> socks (received c (chunk e c) s)" by simp
  from send_whole[OF this k] assms True r pos show ?thesis
    by (simp add: client_to_main_def Let_def received_def)
qed

lemma bridgeLoop_flows:
  assumes "g_mainSock s = m" "g_clientSock s = c" "m \<noteq> - 1" "c \<noteq> - 1" "m \<noteq> c"
    "m \<in> socks s" "c \<in> socks s" "flows e m c" "flows e c m" "\<not> killed s"
  shows "bridgeLoop e s =
           s\<lparr>taken := ((taken s)(m := taken s m @ chunk e m))(c := taken s c @ chunk e c),
              wire := ((wire s)(c := wire s c @ chunk e m))(m := wire s m @ chunk e c)\<rparr>"
proof (cases "0 < select_ret e")
  case False
  with assms chunk_quiet[of e m] chunk_quiet[of e c] show ?thesis
    by (simp add: bridgeLoop_def relay_def snapshot_def)
next
  case True
  let ?l = "snapshot s"
  let ?s1 = "s\<lparr>taken := (taken s)(m := taken s m @ chunk e m),
                wire := (wire s)(c := wire s c @ chunk e m)\<rparr>"
  have l: "haveMain ?l" "haveClient ?l" "mainSockLocal ?l = m" "clientSockLocal ?l = c"
    using assms by (simp_all add: snapshot_def)
  have a: "main_to_client e ?l s = (False, ?s1)"
    using main_to_client_flows[OF l(1,2,3) assms(2) assms(7) assms(8) True] .
  have b: "client_to_main e ?l ?s1 =
      ?s1\<lparr>taken := (taken ?s1)(c := taken ?s1 c @ chunk e c),
           wire := (wire ?s1)(m := wire ?s1 m @ chunk e c)\<rparr>"
    by (rule client_to_main_flows[OF l(1,2,4) _ _ assms(9) True]) (simp_all add: assms)
  from a b l True assms(5,10) show ?thesis
    by (simp add: bridgeLoop_def relay_def)
qed

text \<open>And so over any number of such passes.\<close>

lemma bridge_passes_flows:
  assumes "g_mainSock s = m" "g_clientSock s = c" "m \<noteq> - 1" "c \<noteq> - 1" "m \<noteq> c"
    "m \<in> socks s" "c \<in> socks s" "\<not> killed s" "\<forall>e\<in>set es. flows e m c \<and> flows e c m"
  shows "wire (bridge_passes es s) c = wire s c @ concat (map (\<lambda>e. chunk e m) es) \<and>
         taken (bridge_passes es s) m = taken s m @ concat (map (\<lambda>e. chunk e m) es) \<and>
         wire (bridge_passes es s) m = wire s m @ concat (map (\<lambda>e. chunk e c) es) \<and>
         taken (bridge_passes es s) c = taken s c @ concat (map (\<lambda>e. chunk e c) es)"
  using assms
proof (induction es arbitrary: s)
  case Nil
  then show ?case by simp
next
  case (Cons e es)
  let ?s1 = "s\<lparr>taken := ((taken s)(m := taken s m @ chunk e m))(c := taken s c @ chunk e c),
                wire := ((wire s)(c := wire s c @ chunk e m))(m := wire s m @ chunk e c)\<rparr>"
  from Cons.prems have f: "flows e m c" "flows e c m" by simp_all
  have st: "bridgeLoop e s = ?s1"
    using bridgeLoop_flows[OF Cons.prems(1-7) f Cons.prems(8)] .
  have "wire (bridge_passes es ?s1) c = wire ?s1 c @ concat (map (\<lambda>e. chunk e m) es) \<and>
        taken (bridge_passes es ?s1) m = taken ?s1 m @ concat (map (\<lambda>e. chunk e m) es) \<and>
        wire (bridge_passes es ?s1) m = wire ?s1 m @ concat (map (\<lambda>e. chunk e c) es) \<and>
        taken (bridge_passes es ?s1) c = taken ?s1 c @ concat (map (\<lambda>e. chunk e c) es)"
    by (rule Cons.IH) (use Cons.prems in simp_all)
  with st Cons.prems(5,8) show ?case by simp
qed

lemma forward_passes_on:
  assumes "passes_on r t"
  shows "\<exists>n e'. forward r t [] e = (n, [], piece r, e') \<and> n \<noteq> 0 \<and> (n < 0 \<longrightarrow> e' = EAGAIN) \<and>
           (0 < n \<longrightarrow> e' = e) \<and> \<not> sigpipe n t"
proof (cases r)
  case (RxError x)
  with assms show ?thesis by (simp add: passes_on_def forward_def read_fd_def piece_def sigpipe_def)
next
  case RxEof
  with assms show ?thesis by (simp add: passes_on_def)
next
  case (RxData bs)
  with assms obtain k where ne: "bs \<noteq> []" and t: "t = TxAccepts k" and k: "length (take 65536 bs) \<le> k"
    by (auto simp: passes_on_def split: tx.splits)
  from ne have "take 65536 bs \<noteq> []" by (simp add: take_nonempty)
  then have pos: "0 < length (take 65536 bs)" by blast
  then have m: "min (length (take 65536 bs)) k = length (take 65536 bs)" using k by simp
  from pos have "\<not> (length bs = 0)" by auto
  with RxData ne t k pos show ?thesis
    by (simp add: forward_def read_fd_data splice_out_def piece_def sigpipe_def del: length_take)
       (simp add: min_def)
qed

lemma bridge_turn_clean:
  assumes "clean t" "pipe_m2c p = []" "pipe_c2m p = []" "running p" "m \<noteq> k" "\<not> terminated c"
  shows "\<exists>e'. bridge_turn m k t (p, c) =
           (p, c\<lparr>errno := e',
                  sent := ((sent c)(k := sent c k @ piece (from_main t)))
                             (m := sent c m @ piece (from_client t)),
                  terminated := False\<rparr>)"
proof -
  from assms(1) have a: "passes_on (from_main t) (to_client t)" and b: "passes_on (from_client t) (to_main t)"
    by (simp_all add: clean_def)
  from forward_passes_on[OF a, of "errno c"] obtain n1 e1 where
    f1: "forward (from_main t) (to_client t) [] (errno c) = (n1, [], piece (from_main t), e1)"
    and n1: "n1 \<noteq> 0" "n1 < 0 \<longrightarrow> e1 = EAGAIN" and k1: "\<not> sigpipe n1 (to_client t)" by blast
  from forward_passes_on[OF b, of e1] obtain n2 e2 where
    f2: "forward (from_client t) (to_main t) [] e1 = (n2, [], piece (from_client t), e2)"
    and n2: "n2 \<noteq> 0" "n2 < 0 \<longrightarrow> e2 = EAGAIN" "0 < n2 \<longrightarrow> e2 = e1"
    and k2: "\<not> sigpipe n2 (to_main t)" by blast
  have r: "\<not> ((n1 < 0 \<and> e2 \<noteq> EAGAIN \<and> e2 \<noteq> EWOULDBLOCK) \<or> (n2 < 0 \<and> e2 \<noteq> EAGAIN \<and> e2 \<noteq> EWOULDBLOCK))"
    using n1 n2 by (cases "n2 < 0") auto
  have p: "p\<lparr>pipe_m2c := [], pipe_c2m := [], running := True\<rparr> = p" using assms(2-4) by simp
  from f1 f2 n1(1) n2(1) k1 k2 r assms(2-6) p show ?thesis
    by (auto simp: bridge_turn_def)
qed

text \<open>
  The same for the turns of \<^verbatim>\<open>bridge_sockets\<close> in \<^verbatim>\<open>ebridge.c\<close>: with empty pipes and each
  piece taken whole, the pipes stay empty and each side is sent what the other gave.
\<close>

lemma bridge_while_clean:
  assumes "\<forall>t\<in>set ts. clean t" "pipe_m2c p = []" "pipe_c2m p = []" "running p" "m \<noteq> k"
    "\<not> terminated c"
  shows "fst (bridge_while m k ts (p, c)) = p \<and>
         sent (snd (bridge_while m k ts (p, c))) k = sent c k @ concat (map (\<lambda>t. piece (from_main t)) ts) \<and>
         sent (snd (bridge_while m k ts (p, c))) m = sent c m @ concat (map (\<lambda>t. piece (from_client t)) ts)"
  using assms(1,6)
proof (induction ts arbitrary: c)
  case Nil
  show ?case by simp
next
  case (Cons t ts)
  from Cons.prems have ct: "clean t" and rest: "\<forall>t\<in>set ts. clean t" by simp_all
  from bridge_turn_clean[OF ct assms(2-5) Cons.prems(2)] obtain e' where
    st: "bridge_turn m k t (p, c) =
           (p, c\<lparr>errno := e',
                  sent := ((sent c)(k := sent c k @ piece (from_main t)))
                             (m := sent c m @ piece (from_client t)),
                  terminated := False\<rparr>)" by blast
  have "\<not> terminated (c\<lparr>errno := e',
                  sent := ((sent c)(k := sent c k @ piece (from_main t)))
                             (m := sent c m @ piece (from_client t)),
                  terminated := False\<rparr>)" by simp
  from Cons.IH[OF rest this] st assms(4,5) Cons.prems(2) show ?case by simp
qed

lemma run_bridge_returns:
  assumes "turns i = ts @ t # ts'" "from_main t = RxEof \<or> from_client t = RxEof"
  shows "\<exists>c'. run_bridge i c = Some c'"
proof -
  let ?ps = "(\<lparr>pipe_m2c = [], pipe_c2m = [], running = True\<rparr>,
              logmsg ''[bridge] Established main<->client'' c)"
  obtain p s' where w: "bridge_while (fd_main c) (fd_client c) (turns i) ?ps = (p, s')"
    by (cases "bridge_while (fd_main c) (fd_client c) (turns i) ?ps") auto
  from bridge_while_eof[OF assms(2), of "fd_main c" "fd_client c" ts ts' ?ps] w assms(1)
  have "\<not> running p \<or> terminated s'" by simp
  with w have "\<exists>c1. bridge_sockets (fd_main c) (fd_client c) (pipe_ret i) (turns i) c = Some c1"
    by (auto simp: bridge_sockets_def split: option.splits)
  then show ?thesis by (auto simp: run_bridge_def)
qed

lemma bridged_fields:
  "g_mainSock bridged = 5 \<and> g_clientSock bridged = 7 \<and> g_mainConnected bridged \<and>
   socks bridged = {5, 7} \<and> wire bridged = (\<lambda>fd. []) \<and> taken bridged = (\<lambda>fd. []) \<and>
   \<not> killed bridged"
  by (auto simp: bridged_def initial_def main_arrives_def client_arrives_def
      mainListenerThread_def clientListenerThread_def accepted_def log_def Let_def)

subsection \<open>The client role and the main role\<close>

text \<open>
  The program means to keep three things true of its globals: the client socket is set only
  while the main socket is set, a listener admits a client only while a main is connected,
  and \<^verbatim>\<open>g_mainConnected\<close> says whether the main socket is set. Each check and each store of
  the listeners, and each store of the teardown, is there for that. When no pass of a
  thread is cut by a step of another, the first and the third hold in every state, and
  with the third the test of line 303 gives the second. But the threads hold no lock, and
  the system may run a step of one thread between any two steps of another: the runs
  evaluated below are of that kind.
\<close>

lemma uninterrupted_passes_keep_session:
  "calm p \<Longrightarrow>
     (g_clientSock (mem p) \<noteq> - 1 \<longrightarrow> g_mainSock (mem p) \<noteq> - 1) \<and>
     g_mainConnected (mem p) = (g_mainSock (mem p) \<noteq> - 1)"
  using calm_session_ok[of p] by (auto simp: session_ok_def)

text \<open>
  C1 says that in every state the process can reach, a client socket that is set comes with
  a main socket that is set. \<^verbatim>\<open>ebridge.cpp\<close> breaks it. In the schedule \<open>late_admission\<close> the
  probe connects and is admitted; a debugger connects, and the client listener finds the
  flag true (line 303) and the client role free (line 308); \<^verbatim>\<open>bridgeLoop\<close> then finds the
  main socket at its end and runs the whole of lines 373--383; the client listener goes on
  to line 314 and stores its socket. The run ends with every thread at the head of its
  loop, the process alive, the client socket set to the open descriptor 7, and the main
  socket absent with no descriptor of it open.
\<close>

theorem client_without_main:
  "reachable (run late_admission started) \<and> quiescent (run late_admission started) \<and>
   \<not> killed (mem (run late_admission started)) \<and>
   g_clientSock (mem (run late_admission started)) = 7 \<and>
   socks (mem (run late_admission started)) = {7} \<and>
   g_mainSock (mem (run late_admission started)) = - 1"
proof -
  have "reachable (run late_admission started)"
    by (rule reachable_run) (rule reachable.reachable_start)
  moreover have "socks (mem (run late_admission started)) = {7}"
    by (auto simp: late_admission_def started_def initial_def main_arrives_def client_arrives_def
        main_gone_def alive_def accepted_def close_def log_def recv_def Let_def)
  moreover have "quiescent (run late_admission started) \<and>
     \<not> killed (mem (run late_admission started)) \<and>
     g_clientSock (mem (run late_admission started)) = 7 \<and>
     g_mainSock (mem (run late_admission started)) = - 1"
    by (simp add: late_admission_def started_def initial_def main_arrives_def client_arrives_def
        main_gone_def quiescent_def alive_def accepted_def close_def log_def recv_def Let_def)
  ultimately show ?thesis by simp
qed

subsection \<open>The flag and the main socket\<close>

text \<open>
  C10 says that in every state the process can reach, \<^verbatim>\<open>g_mainConnected\<close> is true exactly
  when \<^verbatim>\<open>g_mainSock\<close> is not \<open>-1\<close>, so that the test of the client listener agrees with the
  main socket. \<^verbatim>\<open>ebridge.cpp\<close> breaks it: the socket and the flag are stored one after the
  other (lines 247 and 248, 376 and 377, 400 and 401). In the schedule \<open>late_flag_clear\<close>
  the probe connects and closes; \<^verbatim>\<open>bridgeLoop\<close> finds the main socket at its end and stores
  \<open>-1\<close> (line 376); the main listener then admits the next probe on descriptor 9 (lines
  241--253); \<^verbatim>\<open>bridgeLoop\<close> goes on to line 377 and clears the flag. The run ends with every
  thread at the head of its loop, the process alive, the main socket set to the open
  descriptor 9 and \<^verbatim>\<open>g_mainConnected\<close> false, and a debugger that connects then is turned
  away with ``main not connected''.
\<close>

theorem flag_disagrees:
  "reachable (run late_flag_clear started) \<and> quiescent (run late_flag_clear started) \<and>
   \<not> killed (mem (run late_flag_clear started)) \<and>
   g_mainSock (mem (run late_flag_clear started)) = 9 \<and>
   socks (mem (run late_flag_clear started)) = {9} \<and>
   g_mainConnected (mem (run late_flag_clear started)) = False \<and>
   clientListenerThread client_arrives (mem (run late_flag_clear started)) =
     (mem (run late_flag_clear started))
       \<lparr>logged := logged (mem (run late_flag_clear started)) @
                    [''Client rejected: main not connected'']\<rparr>"
proof -
  have "reachable (run late_flag_clear started)"
    by (rule reachable_run) (rule reachable.reachable_start)
  moreover have "socks (mem (run late_flag_clear started)) = {9}"
    by (auto simp: late_flag_clear_def started_def initial_def main_arrives_def main_again_def
        main_gone_def alive_def accepted_def close_def log_def recv_def Let_def)
  moreover have "quiescent (run late_flag_clear started) \<and>
     \<not> killed (mem (run late_flag_clear started)) \<and>
     g_mainSock (mem (run late_flag_clear started)) = 9 \<and>
     g_mainConnected (mem (run late_flag_clear started)) = False \<and>
     clientListenerThread client_arrives (mem (run late_flag_clear started)) =
       (mem (run late_flag_clear started))
         \<lparr>logged := logged (mem (run late_flag_clear started)) @
                      [''Client rejected: main not connected'']\<rparr>"
    by (simp add: late_flag_clear_def started_def initial_def main_arrives_def main_again_def
        client_arrives_def main_gone_def quiescent_def alive_def accepted_def close_def log_def
        recv_def Let_def clientListenerThread_def)
  ultimately show ?thesis by simp
qed

subsection \<open>One occupant for each role\<close>

text \<open>
  C5: in every state of the process, under any schedule, a role that is occupied keeps its
  occupant or loses it, and no step puts another descriptor in its place. A listener that
  accepts a connection while its role is occupied closes the new descriptor, logs a
  rejection and leaves the session state as it was; the descriptor is kept nowhere.
\<close>

theorem one_occupant_per_role:
  assumes "reachable p"
  shows "(g_mainSock (mem p) \<noteq> - 1 \<longrightarrow>
            g_mainSock (mem (step a p)) = g_mainSock (mem p) \<or> g_mainSock (mem (step a p)) = - 1) \<and>
         (g_clientSock (mem p) \<noteq> - 1 \<longrightarrow>
            g_clientSock (mem (step a p)) = g_clientSock (mem p) \<or> g_clientSock (mem (step a p)) = - 1) \<and>
         (0 \<le> sock \<and> g_mainSock s \<noteq> - 1 \<longrightarrow>
            sock \<notin> socks (mainListenerThread (Accepted sock ip) s) \<and>
            logged (mainListenerThread (Accepted sock ip) s) =
              logged s @ [''Main rejected: already connected''] \<and>
            g_mainSock (mainListenerThread (Accepted sock ip) s) = g_mainSock s \<and>
            g_clientSock (mainListenerThread (Accepted sock ip) s) = g_clientSock s \<and>
            g_mainConnected (mainListenerThread (Accepted sock ip) s) = g_mainConnected s) \<and>
         (0 \<le> sock \<and> g_clientSock s \<noteq> - 1 \<longrightarrow>
            sock \<notin> socks (clientListenerThread (Accepted sock ip) s) \<and>
            logged (clientListenerThread (Accepted sock ip) s) =
              logged s @ [if g_mainConnected s then ''Client rejected: already connected''
                          else ''Client rejected: main not connected''] \<and>
            g_mainSock (clientListenerThread (Accepted sock ip) s) = g_mainSock s \<and>
            g_clientSock (clientListenerThread (Accepted sock ip) s) = g_clientSock s \<and>
            g_mainConnected (clientListenerThread (Accepted sock ip) s) = g_mainConnected s)"
proof -
  have "0 \<le> sock \<and> g_mainSock s \<noteq> - 1 \<longrightarrow>
            sock \<notin> socks (mainListenerThread (Accepted sock ip) s) \<and>
            logged (mainListenerThread (Accepted sock ip) s) =
              logged s @ [''Main rejected: already connected''] \<and>
            g_mainSock (mainListenerThread (Accepted sock ip) s) = g_mainSock s \<and>
            g_clientSock (mainListenerThread (Accepted sock ip) s) = g_clientSock s \<and>
            g_mainConnected (mainListenerThread (Accepted sock ip) s) = g_mainConnected s"
    by (simp add: mainListenerThread_def accepted_def close_def log_def Let_def)
  moreover have "0 \<le> sock \<and> g_clientSock s \<noteq> - 1 \<longrightarrow>
            sock \<notin> socks (clientListenerThread (Accepted sock ip) s) \<and>
            logged (clientListenerThread (Accepted sock ip) s) =
              logged s @ [if g_mainConnected s then ''Client rejected: already connected''
                          else ''Client rejected: main not connected''] \<and>
            g_mainSock (clientListenerThread (Accepted sock ip) s) = g_mainSock s \<and>
            g_clientSock (clientListenerThread (Accepted sock ip) s) = g_clientSock s \<and>
            g_mainConnected (clientListenerThread (Accepted sock ip) s) = g_mainConnected s"
    by (simp add: clientListenerThread_def accepted_def close_def log_def Let_def)
  ultimately show ?thesis
    using never_replaced_main[OF assms, of a] never_replaced_client[OF assms, of a] by blast
qed

text \<open>
  C5 at the schedule \<open>late_flag_clear\<close>, where the main role holds descriptor 9, and at
  the state \<open>bridged\<close>, where a second probe and a second debugger are turned away.
\<close>

theorem one_occupant_per_role_witness:
  "reachable (run late_flag_clear started) \<and>
   g_mainSock (mem (run late_flag_clear started)) \<noteq> - 1 \<and>
   (g_mainSock (mem (step (MainListener main_arrives) (run late_flag_clear started))) =
      g_mainSock (mem (run late_flag_clear started)) \<or>
    g_mainSock (mem (step (MainListener main_arrives) (run late_flag_clear started))) = - 1) \<and>
   g_mainSock bridged \<noteq> - 1 \<and> g_clientSock bridged \<noteq> - 1 \<and>
   11 \<notin> socks (mainListenerThread (Accepted 11 ''10.0.0.7'') bridged) \<and>
   logged (mainListenerThread (Accepted 11 ''10.0.0.7'') bridged) =
     logged bridged @ [''Main rejected: already connected''] \<and>
   11 \<notin> socks (clientListenerThread (Accepted 11 ''10.0.0.7'') bridged) \<and>
   logged (clientListenerThread (Accepted 11 ''10.0.0.7'') bridged) =
     logged bridged @ [''Client rejected: already connected'']"
proof -
  have r: "reachable (run late_flag_clear started)"
    by (rule reachable_run) (rule reachable.reachable_start)
  have m: "g_mainSock (mem (run late_flag_clear started)) \<noteq> - 1"
    by (simp add: late_flag_clear_def started_def initial_def main_arrives_def main_again_def
        main_gone_def alive_def accepted_def close_def log_def recv_def Let_def)
  have b: "g_mainSock bridged \<noteq> - 1 \<and> g_clientSock bridged \<noteq> - 1 \<and> g_mainConnected bridged"
    by (simp add: bridged_def initial_def main_arrives_def client_arrives_def
        mainListenerThread_def clientListenerThread_def accepted_def log_def Let_def)
  from one_occupant_per_role[OF r, of "MainListener main_arrives" 11 bridged "''10.0.0.7''"] r m b
  show ?thesis by simp
qed

subsection \<open>A rejected accept leaves the occupant alone\<close>

text \<open>
  C8: when a listener accepts a connection while its role is occupied, the pass changes
  nothing but the log: the session state keeps its values, the descriptors that were open
  stay open (the occupant's among them), and the new descriptor is closed again.
\<close>

theorem rejected_accept_frame:
  assumes "0 \<le> sock" and "sock \<notin> socks s"
  shows "(g_mainSock s \<noteq> - 1 \<longrightarrow>
            mainListenerThread (Accepted sock ip) s =
              s\<lparr>logged := logged s @ [''Main rejected: already connected'']\<rparr> \<and>
            socks (mainListenerThread (Accepted sock ip) s) = socks s \<and>
            sock \<notin> socks (mainListenerThread (Accepted sock ip) s)) \<and>
         (g_clientSock s \<noteq> - 1 \<longrightarrow>
            clientListenerThread (Accepted sock ip) s =
              s\<lparr>logged := logged s @ [if g_mainConnected s then ''Client rejected: already connected''
                                       else ''Client rejected: main not connected'']\<rparr> \<and>
            socks (clientListenerThread (Accepted sock ip) s) = socks s \<and>
            sock \<notin> socks (clientListenerThread (Accepted sock ip) s))"
  using assms
  by (simp add: mainListenerThread_def clientListenerThread_def accepted_def close_def log_def Let_def)

text \<open>C8 at the state \<open>bridged\<close>: descriptors 5 and 7 stay open, descriptor 11 is closed.\<close>

theorem rejected_accept_frame_witness:
  "(0::int) \<le> 11 \<and> 11 \<notin> socks bridged \<and> g_mainSock bridged \<noteq> - 1 \<and> g_clientSock bridged \<noteq> - 1 \<and>
   socks bridged = {5, 7} \<and>
   socks (mainListenerThread (Accepted 11 ''10.0.0.7'') bridged) = {5, 7} \<and>
   socks (clientListenerThread (Accepted 11 ''10.0.0.7'') bridged) = {5, 7} \<and>
   mainListenerThread (Accepted 11 ''10.0.0.7'') bridged =
     bridged\<lparr>logged := logged bridged @ [''Main rejected: already connected'']\<rparr> \<and>
   clientListenerThread (Accepted 11 ''10.0.0.7'') bridged =
     bridged\<lparr>logged := logged bridged @ [''Client rejected: already connected'']\<rparr>"
proof -
  have b: "g_mainSock bridged \<noteq> - 1 \<and> g_clientSock bridged \<noteq> - 1 \<and> g_mainConnected bridged \<and>
      socks bridged = {5, 7}"
    by (auto simp: bridged_def initial_def main_arrives_def client_arrives_def
        mainListenerThread_def clientListenerThread_def accepted_def log_def Let_def)
  then have f: "11 \<notin> socks bridged" by simp
  from rejected_accept_frame[OF _ f, of "''10.0.0.7''"] b show ?thesis by simp
qed

subsection \<open>The main listener and the client socket\<close>

text \<open>
  C9: no step of the main listener changes \<^verbatim>\<open>g_clientSock\<close> or \<^verbatim>\<open>g_clientIP\<close>, and what a
  step does is the same whatever \<^verbatim>\<open>g_clientSock\<close> holds: the main listener neither writes
  nor reads the client handle. The same holds of a whole pass.
\<close>

theorem mainListener_leaves_client:
  "g_clientSock (snd (mainListener_step i (pc, s))) = g_clientSock s \<and>
   g_clientIP (snd (mainListener_step i (pc, s))) = g_clientIP s \<and>
   mainListener_step i (pc, s\<lparr>g_clientSock := c\<rparr>) =
     (fst (mainListener_step i (pc, s)), (snd (mainListener_step i (pc, s)))\<lparr>g_clientSock := c\<rparr>) \<and>
   g_clientSock (mainListenerThread i s) = g_clientSock s \<and>
   g_clientIP (mainListenerThread i s) = g_clientIP s \<and>
   mainListenerThread i (s\<lparr>g_clientSock := c\<rparr>) = (mainListenerThread i s)\<lparr>g_clientSock := c\<rparr>"
proof -
  have "g_clientSock (snd (mainListener_step i (pc, s))) = g_clientSock s \<and>
   g_clientIP (snd (mainListener_step i (pc, s))) = g_clientIP s \<and>
   mainListener_step i (pc, s\<lparr>g_clientSock := c\<rparr>) =
     (fst (mainListener_step i (pc, s)), (snd (mainListener_step i (pc, s)))\<lparr>g_clientSock := c\<rparr>)"
    by (cases pc) (auto simp: accepted_def close_def log_def split: listen_in.splits)
  moreover have "g_clientSock (mainListenerThread i s) = g_clientSock s \<and>
   g_clientIP (mainListenerThread i s) = g_clientIP s \<and>
   mainListenerThread i (s\<lparr>g_clientSock := c\<rparr>) = (mainListenerThread i s)\<lparr>g_clientSock := c\<rparr>"
    by (auto simp: mainListenerThread_def accepted_def close_def log_def Let_def
        split: listen_in.splits)
  ultimately show ?thesis by simp
qed

subsection \<open>A port that cannot be bound\<close>

text \<open>
  C7, as stated, fails on \<^verbatim>\<open>ebridge.cpp\<close>: when the main port cannot be bound,
  \<^verbatim>\<open>mainListenerThread\<close> logs and returns (lines 217--220), the client listener and
  \<^verbatim>\<open>bridgeLoop\<close> enter their loops, and \<^verbatim>\<open>main\<close> stays in its joins: the process runs on
  with one listener.
\<close>

theorem bind_failure_not_fatal:
  "bind_ret port_taken = - 1 \<and>
   mainListener_start port_taken = (Returned, ''Failed to bind main port'') \<and>
   mainThread (start_threads port_taken port_free) = Returned \<and>
   clientThread (start_threads port_taken port_free) = Looping \<and>
   bridgeThread (start_threads port_taken port_free) = Looping \<and>
   joined (start_threads port_taken port_free) = False"
  by (simp add: joined_def start_threads_def mainListener_start_def clientListener_start_def
      port_taken_def port_free_def)

text \<open>
  C7, amended: in \<^verbatim>\<open>ebridge.c\<close> a listening socket that fails to bind ends the process with
  \<^verbatim>\<open>exit(1)\<close> before the loop starts, whichever of the two it is. In \<^verbatim>\<open>ebridge.cpp\<close> the
  listener whose port fails to bind logs the failure and returns; the other threads are
  started as they would be, and the process goes on without that listener.
\<close>

theorem bind_failure:
  "(bind_ret ym < 0 \<or> bind_ret yc < 0 \<longrightarrow> listen_both ym yc = Exit 1) \<and>
   (bind_ret ym < 0 \<longrightarrow>
      mainListener_start ym = (Returned, ''Failed to bind main port'') \<and>
      clientThread (start_threads ym yc) = fst (clientListener_start yc) \<and>
      bridgeThread (start_threads ym yc) = Looping \<and> \<not> joined (start_threads ym yc)) \<and>
   (bind_ret yc < 0 \<longrightarrow>
      clientListener_start yc = (Returned, ''Failed to bind client port'') \<and>
      mainThread (start_threads ym yc) = fst (mainListener_start ym) \<and>
      bridgeThread (start_threads ym yc) = Looping \<and> \<not> joined (start_threads ym yc))"
  by (simp add: listen_both_def make_listen_socket_def joined_def start_threads_def
      mainListener_start_def clientListener_start_def)

text \<open>C7, amended, with the main port taken and with the client port taken.\<close>

theorem bind_failure_witness:
  "bind_ret port_taken < 0 \<and> listen_both port_taken port_free = Exit 1 \<and>
   listen_both port_free port_taken = Exit 1 \<and>
   mainListener_start port_taken = (Returned, ''Failed to bind main port'') \<and>
   clientThread (start_threads port_taken port_free) = Looping \<and>
   clientListener_start port_taken = (Returned, ''Failed to bind client port'') \<and>
   mainThread (start_threads port_free port_taken) = Looping"
  using bind_failure[of port_taken port_free] bind_failure[of port_free port_taken]
  by (simp add: port_taken_def port_free_def clientListener_start_def mainListener_start_def)

subsection \<open>Bytes from main before a client\<close>

text \<open>
  C3, as stated, fails on \<^verbatim>\<open>ebridge.cpp\<close>: with the probe connected on descriptor 5 and no
  debugger, a pass of \<^verbatim>\<open>bridgeLoop\<close> that finds three bytes on the main socket takes them off
  the socket and changes nothing else. The main connection stays open and set, nothing is
  logged, and the bytes are sent nowhere.
\<close>

theorem early_data_ignored:
  "g_mainSock waiting = 5 \<and> 5 \<in> socks waiting \<and> g_clientSock waiting = - 1 \<and>
   taken waiting 5 = [] \<and>
   select_ret main_speaks = 1 \<and> readable main_speaks 5 \<and>
   pending main_speaks 5 = RxData [1, 2, 3] \<and>
   bridgeLoop main_speaks waiting = waiting\<lparr>taken := (taken waiting)(5 := [1, 2, 3])\<rparr> \<and>
   g_mainSock (bridgeLoop main_speaks waiting) = 5 \<and>
   5 \<in> socks (bridgeLoop main_speaks waiting) \<and>
   g_mainConnected (bridgeLoop main_speaks waiting) \<and>
   wire (bridgeLoop main_speaks waiting) = (\<lambda>fd. [])"
  by (simp add: waiting_def main_arrives_def initial_def mainListenerThread_def accepted_def
      log_def Let_def main_speaks_def bridgeLoop_def snapshot_def relay_def main_to_client_def
      client_to_main_def recv_def received_def)

text \<open>
  C3, amended: with main connected and no client, \<^verbatim>\<open>ebridge.c\<close> treats bytes arriving from
  main as a violation: the pass of its loop closes the main socket, logs it, and is back
  with neither connected; the bytes are dropped. \<^verbatim>\<open>ebridge.cpp\<close> reads the bytes and drops
  them: a pass of \<^verbatim>\<open>bridgeLoop\<close> whose \<^verbatim>\<open>select\<close> reports the main socket readable takes up to
  4096 of them off the main socket, sends nothing, logs nothing, and leaves every global
  and every descriptor as it was, main connected.
\<close>

theorem early_data_from_main:
  "(0 < fd_main c \<and> fd_client c = - 1 \<and> client_conn i = - 1 \<and> stray_conn i = - 1 \<and>
    early i = RxData bs \<and> bs \<noteq> [] \<longrightarrow>
      main_loop i c =
        Some (c\<lparr>fd_main := - 1, open_fds := open_fds c - {fd_main c},
                printed := printed c @ [''[main] closed on early data or error'']\<rparr>)) \<and>
   (g_mainSock s \<noteq> - 1 \<and> g_clientSock s = - 1 \<and> 0 < select_ret e \<and>
    readable e (g_mainSock s) \<and> pending e (g_mainSock s) = RxData bs \<and> bs \<noteq> [] \<longrightarrow>
      bridgeLoop e s =
        s\<lparr>taken := (taken s)(g_mainSock s := taken s (g_mainSock s) @ take 4096 bs)\<rparr>)"
proof -
  have "bs \<noteq> [] \<Longrightarrow> \<not> int (length (take 4096 bs)) \<le> 0"
    using take_nonempty[of bs 4096] by simp
  then show ?thesis
    by (auto simp: main_loop_def accept_main_def accept_client_def run_bridge_def early_data_def
        reject_client_def accept4_def read_fd_data close_fd_def logmsg_def Let_def
        bridgeLoop_def snapshot_def relay_def main_to_client_def client_to_main_def recv_data
        received_def
        simp del: length_take)
qed

text \<open>C3, amended, with the probe on descriptor 5 sending three bytes.\<close>

theorem early_data_from_main_witness:
  "0 < fd_main c_waiting \<and> fd_client c_waiting = - 1 \<and> early probe_speaks = RxData [1, 2, 3] \<and>
   main_loop probe_speaks c_waiting =
     Some (at_start\<lparr>printed := [''[main] closed on early data or error'']\<rparr>) \<and>
   g_mainSock waiting = 5 \<and> g_clientSock waiting = - 1 \<and> readable main_speaks 5 \<and>
   pending main_speaks (g_mainSock waiting) = RxData [1, 2, 3] \<and>
   bridgeLoop main_speaks waiting = waiting\<lparr>taken := (taken waiting)(5 := [1, 2, 3])\<rparr>"
proof -
  have w: "g_mainSock waiting = 5 \<and> g_clientSock waiting = - 1 \<and> taken waiting = (\<lambda>fd. [])"
    by (simp add: waiting_def main_arrives_def initial_def mainListenerThread_def accepted_def
        log_def Let_def)
  from early_data_from_main[of c_waiting probe_speaks "[1, 2, 3]" waiting main_speaks] w
  show ?thesis
    by (simp add: c_waiting_def probe_speaks_def at_start_def main_speaks_def)
qed

subsection \<open>A client before main\<close>

text \<open>
  With the flag false the client listener of \<^verbatim>\<open>ebridge.cpp\<close> turns a connection away, and so
  does \<^verbatim>\<open>ebridge.c\<close> while \<^verbatim>\<open>fd_main\<close> is \<open>-1\<close> and no main connects in the pass: the
  descriptor is closed at once, the rejection is logged, nothing else changes.
\<close>

lemma client_turned_away:
  "(0 \<le> sock \<and> sock \<notin> socks s \<and> \<not> g_mainConnected s \<longrightarrow>
      clientListenerThread (Accepted sock ip) s =
        s\<lparr>logged := logged s @ [''Client rejected: main not connected'']\<rparr>) \<and>
   (fd_main c = - 1 \<and> main_conn i = - 1 \<and> 0 < stray_conn i \<and> stray_conn i \<notin> open_fds c \<longrightarrow>
      main_loop i c =
        Some (c\<lparr>printed := printed c @ [''[client] Tried to connect without main. Closing.'']\<rparr>))"
  by (auto simp: clientListenerThread_def accepted_def close_def log_def Let_def
      main_loop_def accept_main_def accept_client_def run_bridge_def early_data_def
      reject_client_def accept4_def close_fd_def logmsg_def)

text \<open>
  C4 says that a connection on the client endpoint while the main socket is absent is
  closed at once, with ``client rejected: main not connected'' and no change of the
  session state. \<^verbatim>\<open>ebridge.cpp\<close> breaks it: the client listener tests \<^verbatim>\<open>g_mainConnected\<close>, and
  the flag can be true with no main. In the schedule \<open>stale_flag\<close> the probe connects and
  the main listener stores its socket (line 247); the probe closes, and \<^verbatim>\<open>bridgeLoop\<close> finds
  the main socket at its end and runs lines 373--378, clearing the socket and the flag; the
  main listener then goes on to line 248 and sets the flag. The run ends with every thread
  at the head of its loop, the process alive, neither socket set and no descriptor open. A
  debugger that connects then is admitted: its descriptor is stored and stays open, and
  ``Client connected'' is logged.
\<close>

theorem client_admitted_without_main:
  "reachable (run stale_flag started) \<and> quiescent (run stale_flag started) \<and>
   \<not> killed (mem (run stale_flag started)) \<and>
   g_mainSock (mem (run stale_flag started)) = - 1 \<and>
   g_clientSock (mem (run stale_flag started)) = - 1 \<and>
   socks (mem (run stale_flag started)) = {} \<and>
   g_clientSock (clientListenerThread client_arrives (mem (run stale_flag started))) = 7 \<and>
   socks (clientListenerThread client_arrives (mem (run stale_flag started))) = {7} \<and>
   logged (clientListenerThread client_arrives (mem (run stale_flag started))) =
     logged (mem (run stale_flag started)) @ [''Client connected from 10.0.1.9'']"
proof -
  have "reachable (run stale_flag started)"
    by (rule reachable_run) (rule reachable.reachable_start)
  moreover have "quiescent (run stale_flag started) \<and>
   \<not> killed (mem (run stale_flag started)) \<and>
   g_mainSock (mem (run stale_flag started)) = - 1 \<and>
   g_clientSock (mem (run stale_flag started)) = - 1 \<and>
   socks (mem (run stale_flag started)) = {} \<and>
   g_clientSock (clientListenerThread client_arrives (mem (run stale_flag started))) = 7 \<and>
   socks (clientListenerThread client_arrives (mem (run stale_flag started))) = {7} \<and>
   logged (clientListenerThread client_arrives (mem (run stale_flag started))) =
     logged (mem (run stale_flag started)) @ [''Client connected from 10.0.1.9'']"
    by (simp add: stale_flag_def started_def initial_def main_arrives_def client_arrives_def
        main_gone_def quiescent_def alive_def accepted_def close_def log_def recv_def Let_def
        clientListenerThread_def)
  ultimately show ?thesis by simp
qed

subsection \<open>The teardown\<close>

text \<open>
  C2 says that when the relay meets the end of a stream or a read or write error with both
  connected, it closes both sockets and clears the session state as one step, and is idle
  again so that a new session can form. \<^verbatim>\<open>ebridge.cpp\<close> breaks it in two ways.

  The teardown is a sequence of stores that the listeners run between. In the schedule
  \<open>teardown_begun\<close> both are connected, the probe closes, and \<^verbatim>\<open>bridgeLoop\<close> has closed the
  main socket and stored \<open>-1\<close> (line 376): the main socket is cleared while the client
  socket is still set and open. On from there, in \<open>teardown_torn\<close>, the main listener admits
  the next probe on descriptor 9 (lines 241--253) and \<^verbatim>\<open>bridgeLoop\<close> goes on with lines
  377--383. The run ends with every thread at the head of its loop and the process alive,
  not idle: the main socket is set, \<^verbatim>\<open>g_mainConnected\<close> is false, and a debugger that
  connects is turned away, so that no session forms.

  A write error is not handled at all. With both connected, the debugger gone and three
  bytes from the probe to pass on, the \<^verbatim>\<open>send\<close> of line 386 fails with \<open>EPIPE\<close> and \<^verbatim>\<open>SIGPIPE\<close>
  ends the process before line 391 can find the end of the debugger's stream: both sockets
  are still set and open, and there is no process left to admit a session. In \<^verbatim>\<open>ebridge.c\<close>
  the \<^verbatim>\<open>splice\<close> of line 255 ends the process the same way.
\<close>

theorem teardown_interleaved:
  "reachable (run teardown_begun started) \<and>
   g_mainSock (mem (run teardown_begun started)) = - 1 \<and>
   g_clientSock (mem (run teardown_begun started)) = 7 \<and>
   7 \<in> socks (mem (run teardown_begun started)) \<and>
   reachable (run teardown_torn started) \<and> quiescent (run teardown_torn started) \<and>
   \<not> killed (mem (run teardown_torn started)) \<and>
   g_mainSock (mem (run teardown_torn started)) = 9 \<and>
   socks (mem (run teardown_torn started)) = {9} \<and>
   g_clientSock (mem (run teardown_torn started)) = - 1 \<and>
   g_mainConnected (mem (run teardown_torn started)) = False \<and>
   clientListenerThread client_arrives (mem (run teardown_torn started)) =
     (mem (run teardown_torn started))
       \<lparr>logged := logged (mem (run teardown_torn started)) @
                    [''Client rejected: main not connected'']\<rparr> \<and>
   g_mainSock bridged = 5 \<and> g_clientSock bridged = 7 \<and> room client_reset 7 = TxError EPIPE \<and>
   bridgeLoop client_reset bridged =
     bridged\<lparr>taken := (taken bridged)(5 := [1, 2, 3]), killed := True\<rparr> \<and>
   main_loop reset_session c_bridged =
     Some (c_bridged\<lparr>errno := EPIPE, printed := [''[bridge] Established main<->client''],
                      terminated := True\<rparr>)"
proof -
  have "reachable (run teardown_begun started)" "reachable (run teardown_torn started)"
    by (rule reachable_run, rule reachable.reachable_start)+
  moreover have "g_mainSock (mem (run teardown_begun started)) = - 1 \<and>
   g_clientSock (mem (run teardown_begun started)) = 7 \<and>
   7 \<in> socks (mem (run teardown_begun started))"
    by (simp add: teardown_begun_def started_def initial_def main_arrives_def client_arrives_def
        main_gone_def alive_def accepted_def close_def log_def recv_def Let_def)
  moreover have "socks (mem (run teardown_torn started)) = {9}"
    by (auto simp: teardown_torn_def teardown_begun_def started_def initial_def main_arrives_def
        client_arrives_def main_again_def main_gone_def alive_def accepted_def close_def log_def
        recv_def Let_def)
  moreover have "quiescent (run teardown_torn started) \<and>
   \<not> killed (mem (run teardown_torn started)) \<and>
   g_mainSock (mem (run teardown_torn started)) = 9 \<and>
   g_clientSock (mem (run teardown_torn started)) = - 1 \<and>
   g_mainConnected (mem (run teardown_torn started)) = False \<and>
   clientListenerThread client_arrives (mem (run teardown_torn started)) =
     (mem (run teardown_torn started))
       \<lparr>logged := logged (mem (run teardown_torn started)) @
                    [''Client rejected: main not connected'']\<rparr>"
    by (simp add: teardown_torn_def teardown_begun_def started_def initial_def main_arrives_def
        client_arrives_def main_again_def quiescent_def main_gone_def alive_def accepted_def
        close_def log_def recv_def Let_def clientListenerThread_def)
  moreover have "room client_reset 7 = TxError EPIPE \<and>
   bridgeLoop client_reset bridged =
     bridged\<lparr>taken := (taken bridged)(5 := [1, 2, 3]), killed := True\<rparr>"
    by (simp add: bridged_def initial_def main_arrives_def client_arrives_def
        mainListenerThread_def clientListenerThread_def accepted_def log_def Let_def
        client_reset_def bridgeLoop_def snapshot_def relay_def main_to_client_def recv_def
        received_def send_def)
  moreover have "main_loop reset_session c_bridged =
     Some (c_bridged\<lparr>errno := EPIPE, printed := [''[bridge] Established main<->client''],
                      terminated := True\<rparr>)"
    by (simp add: main_loop_def accept_main_def accept_client_def run_bridge_def
        bridge_sockets_def bridge_turn_def forward_def read_fd_def splice_out_def sigpipe_def
        logmsg_def c_bridged_def at_start_def reset_session_def debugger_reset_def)
  ultimately show ?thesis using bridged_fields by simp
qed

subsection \<open>The bytes relayed\<close>

text \<open>
  C6 says that while both are connected the bytes delivered to a peer are exactly the bytes
  read from the other side, in order. Both programs break it: the sockets are non-blocking,
  each chunk is handed to one \<^verbatim>\<open>send\<close> (lines 386 and 406) or one \<^verbatim>\<open>splice\<close> (lines 255 and
  261), and what that call returns is dropped.

  In \<^verbatim>\<open>ebridge.cpp\<close>, with both connected, a pass reads the bytes 1, 2, 3 from the probe while
  the socket of the debugger has room for one byte; the next pass reads the byte 4. The
  bytes 1, 2, 3, 4 have been taken off the main socket and the debugger is sent 1, 4.

  In \<^verbatim>\<open>ebridge.c\<close> a turn reads 1, 2, 3, 4 from the probe while the socket of the debugger has
  room for two bytes; the next turn reads 5 and moves one byte on. The debugger has been
  sent 1, 2, 3, and 4, 5 are left in the pipe; when the probe then closes,
  \<^verbatim>\<open>bridge_sockets\<close> closes the pipe and the sockets, and 4, 5 are never sent.
\<close>

theorem bytes_lost:
  "g_mainSock bridged = 5 \<and> g_clientSock bridged = 7 \<and>
   taken bridged 5 = [] \<and> wire bridged 7 = [] \<and>
   chunk client_slow 5 = [1, 2, 3] \<and> room client_slow 7 = TxAccepts 1 \<and>
   chunk main_speaks_on 5 = [4] \<and>
   \<not> killed (bridge_passes [client_slow, main_speaks_on] bridged) \<and>
   g_mainSock (bridge_passes [client_slow, main_speaks_on] bridged) = 5 \<and>
   g_clientSock (bridge_passes [client_slow, main_speaks_on] bridged) = 7 \<and>
   taken (bridge_passes [client_slow, main_speaks_on] bridged) 5 = [1, 2, 3, 4] \<and>
   wire (bridge_passes [client_slow, main_speaks_on] bridged) 7 = [1, 4] \<and>
   fd_main c_bridged = 5 \<and> fd_client c_bridged = 7 \<and> sent c_bridged 7 = [] \<and>
   piece (from_main debugger_slow) = [1, 2, 3, 4] \<and> piece (from_main probe_sends_on) = [5] \<and>
   pipe_m2c (fst (bridge_while 5 7 [debugger_slow, probe_sends_on]
                    (\<lparr>pipe_m2c = [], pipe_c2m = [], running = True\<rparr>, c_bridged))) = [4, 5] \<and>
   sent (snd (bridge_while 5 7 [debugger_slow, probe_sends_on]
                (\<lparr>pipe_m2c = [], pipe_c2m = [], running = True\<rparr>, c_bridged))) 7 = [1, 2, 3] \<and>
   map_option (\<lambda>c. (fd_main c, fd_client c, open_fds c, sent c 7, terminated c))
     (main_loop slow_session c_bridged) = Some (- 1, - 1, {}, [1, 2, 3], False)"
proof -
  have "\<not> killed (bridge_passes [client_slow, main_speaks_on] bridged) \<and>
   g_mainSock (bridge_passes [client_slow, main_speaks_on] bridged) = 5 \<and>
   g_clientSock (bridge_passes [client_slow, main_speaks_on] bridged) = 7 \<and>
   taken (bridge_passes [client_slow, main_speaks_on] bridged) 5 = [1, 2, 3, 4] \<and>
   wire (bridge_passes [client_slow, main_speaks_on] bridged) 7 = [1, 4]"
    by (simp add: bridged_def initial_def main_arrives_def client_arrives_def
        mainListenerThread_def clientListenerThread_def accepted_def log_def Let_def
        client_slow_def main_speaks_on_def bridgeLoop_def snapshot_def relay_def
        main_to_client_def client_to_main_def recv_def received_def send_def)
  moreover have "chunk client_slow 5 = [1, 2, 3] \<and> room client_slow 7 = TxAccepts 1 \<and>
      chunk main_speaks_on 5 = [4]"
    by (simp add: chunk_def client_slow_def main_speaks_on_def)
  moreover have "fd_main c_bridged = 5 \<and> fd_client c_bridged = 7 \<and> sent c_bridged 7 = [] \<and>
      piece (from_main debugger_slow) = [1, 2, 3, 4] \<and> piece (from_main probe_sends_on) = [5]"
    by (simp add: c_bridged_def at_start_def piece_def debugger_slow_def probe_sends_on_def)
  moreover have "pipe_m2c (fst (bridge_while 5 7 [debugger_slow, probe_sends_on]
                    (\<lparr>pipe_m2c = [], pipe_c2m = [], running = True\<rparr>, c_bridged))) = [4, 5] \<and>
   sent (snd (bridge_while 5 7 [debugger_slow, probe_sends_on]
                (\<lparr>pipe_m2c = [], pipe_c2m = [], running = True\<rparr>, c_bridged))) 7 = [1, 2, 3]"
    by (simp add: bridge_turn_def forward_def read_fd_def splice_out_def sigpipe_def
        c_bridged_def at_start_def debugger_slow_def probe_sends_on_def)
  moreover have "map_option (\<lambda>c. (fd_main c, fd_client c, open_fds c, sent c 7, terminated c))
     (main_loop slow_session c_bridged) = Some (- 1, - 1, {}, [1, 2, 3], False)"
    by (simp add: main_loop_def accept_main_def accept_client_def run_bridge_def
        early_data_def reject_client_def accept4_def bridge_sockets_def bridge_turn_def
        forward_def read_fd_def splice_out_def sigpipe_def logmsg_def close_fd_def
        c_bridged_def at_start_def slow_session_def debugger_slow_def probe_sends_on_def
        probe_closes_def)
  ultimately show ?thesis using bridged_fields by simp
qed

text \<open>
  When the system takes every chunk whole and neither peer closes or fails, nothing is
  lost: over any number of passes of \<^verbatim>\<open>bridgeLoop\<close> the bytes sent to each peer are the bytes
  taken from the other, in order, at most 4096 of them a pass; and likewise over the turns
  of \<^verbatim>\<open>bridge_sockets\<close> in \<^verbatim>\<open>ebridge.c\<close>, at most 65536 a turn.
\<close>

lemma whole_chunks_relayed:
  "(g_mainSock s \<noteq> - 1 \<and> g_clientSock s \<noteq> - 1 \<and> g_mainSock s \<noteq> g_clientSock s \<and>
    g_mainSock s \<in> socks s \<and> g_clientSock s \<in> socks s \<and> \<not> killed s \<and>
    (\<forall>e\<in>set es. flows e (g_mainSock s) (g_clientSock s) \<and> flows e (g_clientSock s) (g_mainSock s)) \<longrightarrow>
      wire (bridge_passes es s) (g_clientSock s) =
        wire s (g_clientSock s) @ concat (map (\<lambda>e. chunk e (g_mainSock s)) es) \<and>
      taken (bridge_passes es s) (g_mainSock s) =
        taken s (g_mainSock s) @ concat (map (\<lambda>e. chunk e (g_mainSock s)) es) \<and>
      wire (bridge_passes es s) (g_mainSock s) =
        wire s (g_mainSock s) @ concat (map (\<lambda>e. chunk e (g_clientSock s)) es) \<and>
      taken (bridge_passes es s) (g_clientSock s) =
        taken s (g_clientSock s) @ concat (map (\<lambda>e. chunk e (g_clientSock s)) es)) \<and>
   length (chunk e fd) \<le> 4096 \<and>
   (main_fd \<noteq> client_fd \<and> \<not> terminated c \<and> (\<forall>t\<in>set ts. clean t) \<longrightarrow>
      sent (snd (bridge_while main_fd client_fd ts
                   (\<lparr>pipe_m2c = [], pipe_c2m = [], running = True\<rparr>, c))) client_fd =
        sent c client_fd @ concat (map (\<lambda>t. piece (from_main t)) ts) \<and>
      sent (snd (bridge_while main_fd client_fd ts
                   (\<lparr>pipe_m2c = [], pipe_c2m = [], running = True\<rparr>, c))) main_fd =
        sent c main_fd @ concat (map (\<lambda>t. piece (from_client t)) ts)) \<and>
   length (piece r) \<le> 65536"
proof -
  have "wire (bridge_passes es s) (g_clientSock s) =
        wire s (g_clientSock s) @ concat (map (\<lambda>e. chunk e (g_mainSock s)) es) \<and>
      taken (bridge_passes es s) (g_mainSock s) =
        taken s (g_mainSock s) @ concat (map (\<lambda>e. chunk e (g_mainSock s)) es) \<and>
      wire (bridge_passes es s) (g_mainSock s) =
        wire s (g_mainSock s) @ concat (map (\<lambda>e. chunk e (g_clientSock s)) es) \<and>
      taken (bridge_passes es s) (g_clientSock s) =
        taken s (g_clientSock s) @ concat (map (\<lambda>e. chunk e (g_clientSock s)) es)"
    if "g_mainSock s \<noteq> - 1" "g_clientSock s \<noteq> - 1" "g_mainSock s \<noteq> g_clientSock s"
      "g_mainSock s \<in> socks s" "g_clientSock s \<in> socks s" "\<not> killed s"
      "\<forall>e\<in>set es. flows e (g_mainSock s) (g_clientSock s) \<and> flows e (g_clientSock s) (g_mainSock s)"
    using bridge_passes_flows[OF refl refl that] .
  moreover have "sent (snd (bridge_while main_fd client_fd ts
                   (\<lparr>pipe_m2c = [], pipe_c2m = [], running = True\<rparr>, c))) client_fd =
        sent c client_fd @ concat (map (\<lambda>t. piece (from_main t)) ts) \<and>
      sent (snd (bridge_while main_fd client_fd ts
                   (\<lparr>pipe_m2c = [], pipe_c2m = [], running = True\<rparr>, c))) main_fd =
        sent c main_fd @ concat (map (\<lambda>t. piece (from_client t)) ts)"
    if "main_fd \<noteq> client_fd" "\<not> terminated c" "\<forall>t\<in>set ts. clean t"
    using bridge_while_clean[OF that(3) _ _ _ that(1,2),
        of "\<lparr>pipe_m2c = [], pipe_c2m = [], running = True\<rparr>"] by simp
  ultimately show ?thesis using chunk_length[of e fd] piece_length[of r] by blast
qed

end
